theory Spec2Isabelle
  imports Main "HOL-Library.AList" "HOL-Library.Sublist"
begin

section \<open>Documents\<close>

text \<open>
  A document is what \<^verbatim>\<open>json.load\<close> returns: \<^verbatim>\<open>None\<close>, a bool, an int, a float, a
  \<^verbatim>\<open>str\<close>, a \<^verbatim>\<open>list\<close> or a \<^verbatim>\<open>dict\<close> with string keys. A dict is kept as the list
  of its items in insertion order. A finite float is its mantissa and binary exponent;
  the code never computes with numbers, it only tests their truth value.
  Strings are lists of 8-bit characters; on them \<^verbatim>\<open>str.lower\<close> changes the letters
  \<^verbatim>\<open>A\<close>..\<^verbatim>\<open>Z\<close> only, as far as membership in the ASCII key tables below goes.
\<close>

datatype json =
    JNull
  | JBool bool
  | JInt int
  | JFloat int int
  | JStr string
  | JArr "json list"
  | JObj "(string \<times> json) list"

text \<open>Python dicts have no duplicate keys: the representation invariant of \<open>JObj\<close>.\<close>

fun wf_json :: "json \<Rightarrow> bool" where
  "wf_json (JArr xs) = (\<forall>x \<in> set xs. wf_json x)"
| "wf_json (JObj kvs) = (distinct (map fst kvs) \<and> (\<forall>v \<in> snd ` set kvs. wf_json v))"
| "wf_json _ = True"

text \<open>The truth value Python gives a document in \<^verbatim>\<open>if v:\<close>.\<close>

fun truthy :: "json \<Rightarrow> bool" where
  "truthy JNull = False"
| "truthy (JBool b) = b"
| "truthy (JInt n) = (n \<noteq> 0)"
| "truthy (JFloat m e) = (m \<noteq> 0)"
| "truthy (JStr s) = (s \<noteq> [])"
| "truthy (JArr xs) = (xs \<noteq> [])"
| "truthy (JObj kvs) = (kvs \<noteq> [])"

section \<open>Sanitizer: \<^verbatim>\<open>scripts/sanitize_data.py\<close>\<close>

definition lower_char :: "char \<Rightarrow> char" where
  "lower_char c =
     (case map_of (zip ''ABCDEFGHIJKLMNOPQRSTUVWXYZ'' ''abcdefghijklmnopqrstuvwxyz'') c of
        Some l \<Rightarrow> l
      | None \<Rightarrow> c)"

definition lower :: "string \<Rightarrow> string" where
  "lower s = map lower_char s"

text \<open>\<^verbatim>\<open>s.replace(c, "")\<close> for a single character \<open>c\<close>.\<close>

definition remove_char :: "char \<Rightarrow> string \<Rightarrow> string" where
  "remove_char c s = filter (\<lambda>x. x \<noteq> c) s"

definition SENSITIVE_KEYS :: "string list" where
  "SENSITIVE_KEYS =
     [''apikey'', ''api_key'', ''key'', ''connectionstring'', ''connection_string'',
      ''secret'', ''password'', ''token'', ''accesskey'', ''primarykey'', ''secondarykey'']"

definition URL_KEYS :: "string list" where
  "URL_KEYS =
     [''@odata.context'', ''resourceuri'', ''resource_uri'', ''uri'', ''url'', ''endpoint'',
      ''subdomainurl'']"

definition REDACTED_PLACEHOLDER :: string where
  "REDACTED_PLACEHOLDER = ''<REDACTED>''"

definition URL_PLACEHOLDER :: string where
  "URL_PLACEHOLDER = ''<AZURE_ENDPOINT_PLACEHOLDER>''"

definition CONTAINER_PLACEHOLDER :: string where
  "CONTAINER_PLACEHOLDER = ''<BLOB_CONTAINER_PLACEHOLDER>''"

definition LEGACY_CONTAINER_NAMES :: "string list" where
  "LEGACY_CONTAINER_NAMES = [''kr-demos'', ''sample-documents'', ''foundry-iq-data'']"

definition should_redact_key :: "string \<Rightarrow> bool" where
  "should_redact_key key =
     (let key_lower = remove_char (CHR ''_'') (remove_char (CHR ''-'') (lower key))
      in key_lower \<in> set (map (remove_char (CHR ''_'')) SENSITIVE_KEYS))"

definition should_redact_url_key :: "string \<Rightarrow> bool" where
  "should_redact_url_key key =
     (let key_lower = remove_char (CHR ''_'') (remove_char (CHR ''-'') (lower key))
      in key_lower \<in> set (map (\<lambda>k. remove_char (CHR ''.'') (remove_char (CHR ''_'') k)) URL_KEYS))"

text \<open>
  The key test as the specification words it: a key matches a secret-indicating name when
  the two are equal once case and the separators \<^verbatim>\<open>-\<close> and \<^verbatim>\<open>_\<close> are ignored. It is
  compared with \<open>should_redact_key\<close> below.
\<close>

definition is_separator :: "char \<Rightarrow> bool" where
  "is_separator c \<longleftrightarrow> c = CHR ''-'' \<or> c = CHR ''_''"

definition ignoring_case_and_separators :: "string \<Rightarrow> string" where
  "ignoring_case_and_separators s = map lower_char (filter (\<lambda>c. \<not> is_separator c) s)"

definition spec_secret_key :: "string \<Rightarrow> bool" where
  "spec_secret_key key =
     list_ex (\<lambda>name. ignoring_case_and_separators key = ignoring_case_and_separators name)
       SENSITIVE_KEYS"

text \<open>
  The five patterns of \<^verbatim>\<open>AZURE_URL_PATTERNS\<close> all have the shape
  \<^verbatim>\<open>https://[a-zA-Z0-9\-]+<domain>/?[^\s\"]*\<close> and are tried with \<^verbatim>\<open>re.match\<close> under
  \<^verbatim>\<open>re.IGNORECASE\<close>: the match is anchored at the start only and the tail
  \<^verbatim>\<open>/?[^\s\"]*\<close> also matches the empty string. The domain starts with a dot, which
  is not a label character, so the label is the longest run of label characters.
\<close>

definition AZURE_URL_DOMAINS :: "string list" where
  "AZURE_URL_DOMAINS =
     [''.search.windows.net'', ''.openai.azure.com'', ''.cognitiveservices.azure.com'',
      ''.blob.core.windows.net'', ''.documents.azure.com'']"

definition is_label_char :: "char \<Rightarrow> bool" where
  "is_label_char c =
     (c \<in> set ''abcdefghijklmnopqrstuvwxyzABCDEFGHIJKLMNOPQRSTUVWXYZ0123456789-'')"

definition re_match_azure :: "string \<Rightarrow> string \<Rightarrow> bool" where
  "re_match_azure domain v =
     (let s = lower v; rest = drop 8 s
      in take 8 s = ''https://''
         \<and> takeWhile is_label_char rest \<noteq> []
         \<and> take (length domain) (dropWhile is_label_char rest) = domain)"

definition is_azure_url :: "json \<Rightarrow> bool" where
  "is_azure_url v =
     (case v of JStr s \<Rightarrow> list_ex (\<lambda>domain. re_match_azure domain s) AZURE_URL_DOMAINS
      | _ \<Rightarrow> False)"

definition sanitize_value :: "string \<Rightarrow> json \<Rightarrow> json" where
  "sanitize_value key v =
     (if v = JNull then JNull
      else if should_redact_key key then
        (case v of
           JStr s \<Rightarrow> if s \<noteq> [] \<and> s \<noteq> ''null'' then JStr REDACTED_PLACEHOLDER else v
         | _ \<Rightarrow> v)
      else if should_redact_url_key key then
        (if is_azure_url v then JStr URL_PLACEHOLDER else v)
      else if is_azure_url v then JStr URL_PLACEHOLDER
      else v)"

text \<open>
  The test that sends a scalar value of \<^verbatim>\<open>sanitize_dict\<close> to the container
  placeholder, before \<^verbatim>\<open>sanitize_value\<close> is asked.
\<close>

definition is_legacy_container :: "string \<Rightarrow> string \<Rightarrow> json \<Rightarrow> bool" where
  "is_legacy_container parent_key key v =
     (let key_lower = lower key
      in (key_lower = ''name'' \<or> key_lower = ''containername'')
         \<and> (lower parent_key = ''container'' \<or> key_lower = ''containername'')
         \<and> (case v of JStr s \<Rightarrow> s \<in> set LEGACY_CONTAINER_NAMES | _ \<Rightarrow> False))"

text \<open>
  The two loops, with \<open>result\<close> as the accumulator: \<^verbatim>\<open>result[key] = x\<close> is
  \<^const>\<open>AList.update\<close> (replace in place, or append), \<^verbatim>\<open>result.append(x)\<close> is \<open>@ [x]\<close>.
\<close>

fun sanitize_dict_loop :: "(string \<times> json) list \<Rightarrow> string \<Rightarrow> (string \<times> json) list \<Rightarrow> (string \<times> json) list"
and sanitize_list_loop :: "string \<Rightarrow> json list \<Rightarrow> json list \<Rightarrow> json list"
where
  "sanitize_dict_loop [] parent_key result = result"
| "sanitize_dict_loop ((key, JObj d) # rest) parent_key result =
     sanitize_dict_loop rest parent_key
       (AList.update key (JObj (sanitize_dict_loop d key [])) result)"
| "sanitize_dict_loop ((key, JArr xs) # rest) parent_key result =
     sanitize_dict_loop rest parent_key
       (AList.update key (JArr (sanitize_list_loop key xs [])) result)"
| "sanitize_dict_loop ((key, v) # rest) parent_key result =
     sanitize_dict_loop rest parent_key
       (AList.update key
          (if is_legacy_container parent_key key v then JStr CONTAINER_PLACEHOLDER
           else sanitize_value key v) result)"
| "sanitize_list_loop parent_key [] result = result"
| "sanitize_list_loop parent_key (JObj d # rest) result =
     sanitize_list_loop parent_key rest (result @ [JObj (sanitize_dict_loop d parent_key [])])"
| "sanitize_list_loop parent_key (JArr xs # rest) result =
     sanitize_list_loop parent_key rest (result @ [JArr (sanitize_list_loop parent_key xs [])])"
| "sanitize_list_loop parent_key (item # rest) result =
     sanitize_list_loop parent_key rest (result @ [sanitize_value parent_key item])"

definition sanitize_dict :: "(string \<times> json) list \<Rightarrow> string \<Rightarrow> (string \<times> json) list" where
  "sanitize_dict data parent_key = sanitize_dict_loop data parent_key []"

definition sanitize_list :: "string \<Rightarrow> json list \<Rightarrow> json list" where
  "sanitize_list parent_key data = sanitize_list_loop parent_key data []"

text \<open>
  What one value becomes: as the value of \<open>key\<close> in a dict whose own parent key is
  \<open>parent_key\<close> (\<open>in_dict\<close>), or as an item of a list met under \<open>key\<close>. This is the
  body of the two loops, used to state what they compute.
\<close>

definition san_node :: "bool \<Rightarrow> string \<Rightarrow> string \<Rightarrow> json \<Rightarrow> json" where
  "san_node in_dict parent_key key v =
     (case v of
        JObj d \<Rightarrow> JObj (sanitize_dict d key)
      | JArr xs \<Rightarrow> JArr (sanitize_list key xs)
      | _ \<Rightarrow> if in_dict \<and> is_legacy_container parent_key key v then JStr CONTAINER_PLACEHOLDER
             else sanitize_value key v)"

subsection \<open>Addressing a value inside a document\<close>

datatype step = Key string | Idx nat

fun lookup_path :: "json \<Rightarrow> step list \<Rightarrow> json option" where
  "lookup_path v [] = Some v"
| "lookup_path (JObj kvs) (Key k # p) =
     (case map_of kvs k of None \<Rightarrow> None | Some v \<Rightarrow> lookup_path v p)"
| "lookup_path (JArr xs) (Idx i # p) =
     (if i < length xs then lookup_path (xs ! i) p else None)"
| "lookup_path _ _ = None"

section \<open>Python operations on documents\<close>

text \<open>
  The code reads documents with \<^verbatim>\<open>k in d\<close>, \<^verbatim>\<open>d[k]\<close>, \<^verbatim>\<open>d.get(k)\<close> and writes them with
  \<^verbatim>\<open>d[k] = v\<close>, \<^verbatim>\<open>d.pop(k, None)\<close>. Nothing in it checks that \<open>d\<close> is a dict, so each
  operation is modelled on every document, with the exception Python raises as the
  \<open>Inl\<close> result.
\<close>

datatype py_error = AttributeError | TypeError | KeyError | HTTPError

definition bind_err :: "'e + 'a \<Rightarrow> ('a \<Rightarrow> 'e + 'b) \<Rightarrow> 'e + 'b" where
  "bind_err m f = (case m of Inl e \<Rightarrow> Inl e | Inr x \<Rightarrow> f x)"

text \<open>\<^verbatim>\<open>d.get(k, dflt)\<close>: only a dict has the method.\<close>

fun py_get_default :: "json \<Rightarrow> string \<Rightarrow> json \<Rightarrow> py_error + json" where
  "py_get_default (JObj kvs) k dflt = Inr (case map_of kvs k of None \<Rightarrow> dflt | Some v \<Rightarrow> v)"
| "py_get_default _ k dflt = Inl AttributeError"

definition py_get :: "json \<Rightarrow> string \<Rightarrow> py_error + json" where
  "py_get d k = py_get_default d k JNull"

text \<open>
  \<^verbatim>\<open>k in d\<close> for a string \<open>k\<close>: key membership in a dict, element membership in a list,
  substring test in a string, \<^verbatim>\<open>TypeError\<close> on \<^verbatim>\<open>None\<close>, bools and numbers.
\<close>

fun py_in :: "string \<Rightarrow> json \<Rightarrow> py_error + bool" where
  "py_in k (JObj kvs) = Inr (k \<in> fst ` set kvs)"
| "py_in k (JArr xs) = Inr (JStr k \<in> set xs)"
| "py_in k (JStr s) = Inr (sublist k s)"
| "py_in k _ = Inl TypeError"

text \<open>\<^verbatim>\<open>d[k]\<close> for a string \<open>k\<close>: lists and strings want integer indices.\<close>

fun py_getitem :: "json \<Rightarrow> string \<Rightarrow> py_error + json" where
  "py_getitem (JObj kvs) k = (case map_of kvs k of None \<Rightarrow> Inl KeyError | Some v \<Rightarrow> Inr v)"
| "py_getitem _ k = Inl TypeError"

text \<open>\<^verbatim>\<open>d[k] = v\<close> for a string \<open>k\<close>: the key keeps its place, a new key goes last.\<close>

fun py_setitem :: "json \<Rightarrow> string \<Rightarrow> json \<Rightarrow> py_error + json" where
  "py_setitem (JObj kvs) k v = Inr (JObj (AList.update k v kvs))"
| "py_setitem _ k v = Inl TypeError"

text \<open>\<^verbatim>\<open>d.pop(k, None)\<close>, for its effect on \<open>d\<close>.\<close>

fun py_pop :: "json \<Rightarrow> string \<Rightarrow> py_error + json" where
  "py_pop (JObj kvs) k = Inr (JObj (AList.delete k kvs))"
| "py_pop (JArr xs) k = Inl TypeError"
| "py_pop _ k = Inl AttributeError"

text \<open>Lists and dicts cannot be hashed, so they cannot be looked up in a set.\<close>

fun hashable :: "json \<Rightarrow> bool" where
  "hashable (JArr xs) = False"
| "hashable (JObj kvs) = False"
| "hashable _ = True"

text \<open>
  \<^verbatim>\<open>x == y\<close> on values that can be hashed, which is how a \<^verbatim>\<open>set\<close> tells its elements apart:
  bools, ints and floats are compared by their value (\<^verbatim>\<open>True\<close> is \<^verbatim>\<open>1\<close>, \<^verbatim>\<open>1.0\<close> is \<^verbatim>\<open>1\<close>),
  strings by their characters, \<^verbatim>\<open>None\<close> equals itself only. \<open>py_in_set x S\<close> is \<^verbatim>\<open>x in S\<close>
  for a set \<open>S\<close>.
\<close>

fun num_value :: "json \<Rightarrow> (int \<times> int) option" where
  "num_value (JBool b) = Some (if b then 1 else 0, 0)"
| "num_value (JInt i) = Some (i, 0)"
| "num_value (JFloat m e) = Some (m, e)"
| "num_value _ = None"

definition py_eq :: "json \<Rightarrow> json \<Rightarrow> bool" where
  "py_eq x y =
     (case (num_value x, num_value y) of
        (Some (m1, e1), Some (m2, e2)) \<Rightarrow>
          m1 * 2 ^ nat (e1 - min e1 e2) = m2 * 2 ^ nat (e2 - min e1 e2)
      | (None, None) \<Rightarrow> x = y
      | _ \<Rightarrow> False)"

definition py_in_set :: "json \<Rightarrow> json set \<Rightarrow> bool" where
  "py_in_set x S \<longleftrightarrow> (\<exists>y \<in> S. py_eq y x)"

text \<open>\<^verbatim>\<open>for x in v\<close>: the items of a list, the keys of a dict, the characters of a string.\<close>

fun py_iter :: "json \<Rightarrow> py_error + json list" where
  "py_iter (JArr xs) = Inr xs"
| "py_iter (JObj kvs) = Inr (map (\<lambda>kv. JStr (fst kv)) kvs)"
| "py_iter (JStr s) = Inr (map (\<lambda>c. JStr [c]) s)"
| "py_iter _ = Inl TypeError"

section \<open>Dependency Resolver: \<^verbatim>\<open>extract_resources_from_ks\<close> in \<^verbatim>\<open>scripts/dump_az_search.py\<close>\<close>

record resources =
  indexName :: json
  indexerName :: json
  dataSourceName :: json
  skillsetName :: json

definition no_resources :: resources where
  "no_resources =
     \<lparr>indexName = JNull, indexerName = JNull, dataSourceName = JNull, skillsetName = JNull\<rparr>"

text \<open>The two lines the Resolver prints.\<close>

datatype notice = RemoteSourceInfo json | UnknownKindWarning json

text \<open>
  The branches for \<^verbatim>\<open>azureBlob\<close>, \<^verbatim>\<open>indexedOneLake\<close> and \<^verbatim>\<open>indexedSharePoint\<close> are the
  same six lines, up to the name of the parameter block.
\<close>

definition created_resources :: "json \<Rightarrow> string \<Rightarrow> py_error + resources" where
  "created_resources ks params_key =
     bind_err (py_get_default ks params_key (JObj [])) (\<lambda>params.
     bind_err (if truthy params then py_get_default params ''createdResources'' (JObj [])
               else Inr (JObj [])) (\<lambda>created.
     bind_err (py_get created ''index'') (\<lambda>index.
     bind_err (py_get created ''indexer'') (\<lambda>indexer.
     bind_err (py_get created ''datasource'') (\<lambda>datasource.
     bind_err (py_get created ''skillset'') (\<lambda>skillset.
       Inr \<lparr>indexName = index, indexerName = indexer, dataSourceName = datasource,
            skillsetName = skillset\<rparr>))))))"

definition extract_resources_from_ks :: "json \<Rightarrow> py_error + resources \<times> notice list" where
  "extract_resources_from_ks ks =
     bind_err (py_get_default ks ''kind'' (JStr [])) (\<lambda>kind.
       if kind = JStr ''searchIndex'' then
         bind_err (py_get_default ks ''searchIndexParameters'' (JObj [])) (\<lambda>params.
           if truthy params then
             bind_err (py_get params ''searchIndexName'') (\<lambda>n.
               Inr (no_resources\<lparr>indexName := n\<rparr>, []))
           else Inr (no_resources, []))
       else if kind = JStr ''azureBlob'' then
         bind_err (created_resources ks ''azureBlobParameters'') (\<lambda>r. Inr (r, []))
       else if kind = JStr ''indexedOneLake'' then
         bind_err (created_resources ks ''indexedOneLakeParameters'') (\<lambda>r. Inr (r, []))
       else if kind = JStr ''indexedSharePoint'' then
         bind_err (created_resources ks ''indexedSharePointParameters'') (\<lambda>r. Inr (r, []))
       else if \<not> hashable kind then Inl TypeError
       else if kind \<in> {JStr ''remoteSharePoint'', JStr ''web''} then
         Inr (no_resources, [RemoteSourceInfo kind])
       else Inr (no_resources, [UnknownKindWarning kind]))"

text \<open>The value a document holds at a path, \<^verbatim>\<open>None\<close> when there is none.\<close>

definition value_at :: "json \<Rightarrow> step list \<Rightarrow> json" where
  "value_at d p = (case lookup_path d p of None \<Rightarrow> JNull | Some v \<Rightarrow> v)"

text \<open>
  What the Resolver needs of a parameter block to read it: the block is missing, falsy, or
  a dict; and so is the sub-block, unless it is missing.
\<close>

definition readable_block :: "json \<Rightarrow> string \<Rightarrow> bool" where
  "readable_block ks params_key =
     (case lookup_path ks [Key params_key] of
        None \<Rightarrow> True
      | Some (JObj ps) \<Rightarrow>
          ps = [] \<or> (case map_of ps ''createdResources'' of
                       None \<Rightarrow> True | Some (JObj cr) \<Rightarrow> True | Some _ \<Rightarrow> False)
      | Some v \<Rightarrow> \<not> truthy v)"

definition readable_params :: "json \<Rightarrow> string \<Rightarrow> bool" where
  "readable_params ks params_key =
     (case lookup_path ks [Key params_key] of
        None \<Rightarrow> True
      | Some (JObj ps) \<Rightarrow> True
      | Some v \<Rightarrow> \<not> truthy v)"

definition KIND_BLOCKS :: "(string \<times> string) list" where
  "KIND_BLOCKS =
     [(''azureBlob'', ''azureBlobParameters''),
      (''indexedOneLake'', ''indexedOneLakeParameters''),
      (''indexedSharePoint'', ''indexedSharePointParameters'')]"

section \<open>Restorer: \<^verbatim>\<open>infra/hooks/configure_search_objects.py\<close>\<close>

text \<open>
  The Restorer changes a loaded document in place. The document is a tree (it comes from
  \<^verbatim>\<open>json.load\<close>, so no two fields share an object), and a change made through a local
  name such as \<^verbatim>\<open>blob_params\<close> is a change of the field the name was read from: the
  model computes the new block and stores it back under its key.
\<close>

text \<open>\<^verbatim>\<open>if d.get(k) == token: d[k] = live\<close>\<close>

definition subst_placeholder :: "string \<Rightarrow> string \<Rightarrow> json \<Rightarrow> json \<Rightarrow> py_error + json" where
  "subst_placeholder k token live d =
     bind_err (py_get d k) (\<lambda>v. if v = JStr token then py_setitem d k live else Inr d)"

text \<open>\<^verbatim>\<open>if k in d and d[k]: block = d[k]; ...\<close>, the body working on \<open>block\<close>.\<close>

definition in_truthy_block :: "string \<Rightarrow> (json \<Rightarrow> py_error + json) \<Rightarrow> json \<Rightarrow> py_error + json" where
  "in_truthy_block k body d =
     bind_err (py_in k d) (\<lambda>present.
       if \<not> present then Inr d
       else bind_err (py_getitem d k) (\<lambda>block.
         if \<not> truthy block then Inr d
         else bind_err (body block) (\<lambda>block'. py_setitem d k block')))"

text \<open>\<^verbatim>\<open>if k in d: block = d[k]; ...\<close>, without the truth test (the older schema).\<close>

definition in_block :: "string \<Rightarrow> (json \<Rightarrow> py_error + json) \<Rightarrow> json \<Rightarrow> py_error + json" where
  "in_block k body d =
     bind_err (py_in k d) (\<lambda>present.
       if \<not> present then Inr d
       else bind_err (py_getitem d k) (\<lambda>block.
         bind_err (body block) (\<lambda>block'. py_setitem d k block')))"

text \<open>A loop body run on each item in turn; the first exception ends the loop.\<close>

fun map_err :: "('a \<Rightarrow> 'e + 'b) \<Rightarrow> 'a list \<Rightarrow> 'e + 'b list" where
  "map_err f [] = Inr []"
| "map_err f (x # xs) =
     bind_err (f x) (\<lambda>y. bind_err (map_err f xs) (\<lambda>ys. Inr (y # ys)))"

text \<open>
  The four lines that restore an \<^verbatim>\<open>azureOpenAIParameters\<close> block; the source repeats them
  at each of its six places.
\<close>

definition replace_aoai_params :: "string \<Rightarrow> string \<Rightarrow> json \<Rightarrow> py_error + json" where
  "replace_aoai_params openai_endpoint openai_key aoai_params =
     bind_err (subst_placeholder ''resourceUri'' ''<AZURE_ENDPOINT_PLACEHOLDER>''
                 (JStr openai_endpoint) aoai_params) (\<lambda>a.
       subst_placeholder ''apiKey'' ''<REDACTED>'' (JStr openai_key) a)"

text \<open>An \<^verbatim>\<open>embeddingModel\<close> or \<^verbatim>\<open>chatCompletionModel\<close> of an ingestion block.\<close>

definition replace_in_model :: "string \<Rightarrow> string \<Rightarrow> string \<Rightarrow> json \<Rightarrow> py_error + json" where
  "replace_in_model model_key openai_endpoint openai_key ingest_params =
     in_truthy_block model_key
       (in_truthy_block ''azureOpenAIParameters'' (replace_aoai_params openai_endpoint openai_key))
       ingest_params"

text \<open>\<^verbatim>\<open>if ai_services_endpoint and ai_services_key\<close>, on two \<^verbatim>\<open>str | None\<close> values.\<close>

definition ai_services_available :: "string option \<Rightarrow> string option \<Rightarrow> bool" where
  "ai_services_available ai_services_endpoint ai_services_key =
     (case (ai_services_endpoint, ai_services_key) of
        (Some e, Some k) \<Rightarrow> e \<noteq> [] \<and> k \<noteq> []
      | _ \<Rightarrow> False)"

definition replace_ai_services ::
  "string option \<Rightarrow> string option \<Rightarrow> json \<Rightarrow> py_error + json" where
  "replace_ai_services ai_services_endpoint ai_services_key ingest_params =
     bind_err (py_in ''aiServices'' ingest_params) (\<lambda>present.
       if \<not> present then Inr ingest_params
       else bind_err (py_getitem ingest_params ''aiServices'') (\<lambda>ai_svc.
         if \<not> truthy ai_svc then Inr ingest_params
         else (case (ai_services_endpoint, ai_services_key) of
                 (Some endpoint, Some key) \<Rightarrow>
                   if endpoint \<noteq> [] \<and> key \<noteq> [] then
                     bind_err (subst_placeholder ''uri'' ''<AZURE_ENDPOINT_PLACEHOLDER>''
                                 (JStr endpoint) ai_svc) (\<lambda>s1.
                     bind_err (subst_placeholder ''apiKey'' ''<REDACTED>'' (JStr key) s1) (\<lambda>s2.
                       py_setitem ingest_params ''aiServices'' s2))
                   else py_setitem ingest_params ''aiServices'' JNull
               | _ \<Rightarrow> py_setitem ingest_params ''aiServices'' JNull)))"

definition replace_blob_ingestion ::
  "string \<Rightarrow> string \<Rightarrow> string option \<Rightarrow> string option \<Rightarrow> json \<Rightarrow> py_error + json" where
  "replace_blob_ingestion openai_endpoint openai_key ai_services_endpoint ai_services_key ingest_params =
     bind_err (replace_in_model ''embeddingModel'' openai_endpoint openai_key ingest_params) (\<lambda>i1.
     bind_err (replace_in_model ''chatCompletionModel'' openai_endpoint openai_key i1) (\<lambda>i2.
       replace_ai_services ai_services_endpoint ai_services_key i2))"

definition replace_blob_params ::
  "string \<Rightarrow> string \<Rightarrow> string \<Rightarrow> string \<Rightarrow> string option \<Rightarrow> string option \<Rightarrow> json
   \<Rightarrow> py_error + json" where
  "replace_blob_params openai_endpoint openai_key storage_connection_string blob_container
       ai_services_endpoint ai_services_key blob_params =
     bind_err (py_get blob_params ''connectionString'') (\<lambda>cs.
     bind_err (if cs \<in> {JStr ''<REDACTED>'', JNull, JStr ''''}
               then py_setitem blob_params ''connectionString'' (JStr storage_connection_string)
               else Inr blob_params) (\<lambda>b1.
     bind_err (subst_placeholder ''containerName'' ''<BLOB_CONTAINER_PLACEHOLDER>''
                 (JStr blob_container) b1) (\<lambda>b2.
       in_truthy_block ''ingestionParameters''
         (replace_blob_ingestion openai_endpoint openai_key ai_services_endpoint ai_services_key)
         b2)))"

text \<open>The OneLake and SharePoint blocks: only the embedding model is restored.\<close>

definition replace_indexed_params :: "string \<Rightarrow> string \<Rightarrow> json \<Rightarrow> py_error + json" where
  "replace_indexed_params openai_endpoint openai_key params =
     in_truthy_block ''ingestionParameters''
       (replace_in_model ''embeddingModel'' openai_endpoint openai_key) params"

definition pop_odata :: "json \<Rightarrow> py_error + json" where
  "pop_odata d = bind_err (py_pop d ''@odata.context'') (\<lambda>d1. py_pop d1 ''@odata.etag'')"

definition replace_placeholders_in_knowledge_source ::
  "json \<Rightarrow> string \<Rightarrow> string \<Rightarrow> string \<Rightarrow> string \<Rightarrow> string option \<Rightarrow> string option
   \<Rightarrow> py_error + json" where
  "replace_placeholders_in_knowledge_source source_data openai_endpoint openai_key
       storage_connection_string blob_container ai_services_endpoint ai_services_key =
     bind_err (pop_odata source_data) (\<lambda>d0.
     bind_err (in_truthy_block ''azureBlobParameters''
                 (replace_blob_params openai_endpoint openai_key storage_connection_string
                    blob_container ai_services_endpoint ai_services_key) d0) (\<lambda>d1.
     bind_err (in_truthy_block ''indexedOneLakeParameters''
                 (replace_indexed_params openai_endpoint openai_key) d1) (\<lambda>d2.
       in_truthy_block ''indexedSharePointParameters''
         (replace_indexed_params openai_endpoint openai_key) d2)))"

text \<open>
  \<^verbatim>\<open>for model in kb_data["models"]\<close>: the models of a list are restored in place; the keys
  of a dict and the characters of a string are strings, which the body can only read.
\<close>

definition replace_in_models :: "string \<Rightarrow> string \<Rightarrow> json \<Rightarrow> py_error + json" where
  "replace_in_models openai_endpoint openai_key models =
     bind_err (py_iter models) (\<lambda>items.
     bind_err (map_err (in_truthy_block ''azureOpenAIParameters''
                          (replace_aoai_params openai_endpoint openai_key)) items) (\<lambda>items'.
       Inr (case models of JArr xs \<Rightarrow> JArr items' | _ \<Rightarrow> models)))"

definition replace_placeholders_in_knowledge_base ::
  "json \<Rightarrow> string \<Rightarrow> string \<Rightarrow> py_error + json" where
  "replace_placeholders_in_knowledge_base kb_data openai_endpoint openai_key =
     bind_err (pop_odata kb_data) (\<lambda>d0.
     bind_err (in_truthy_block ''models'' (replace_in_models openai_endpoint openai_key) d0) (\<lambda>d1.
       in_truthy_block ''inferenceParameters''
         (in_block ''azureOpenAIParameters'' (replace_aoai_params openai_endpoint openai_key))
         d1))"

subsection \<open>Where a document holds placeholder tokens\<close>

definition is_placeholder :: "string \<Rightarrow> bool" where
  "is_placeholder s \<longleftrightarrow>
     s = REDACTED_PLACEHOLDER \<or> s = URL_PLACEHOLDER \<or> s = CONTAINER_PLACEHOLDER"

text \<open>No field and no list item, at any depth, is one of the three tokens.\<close>

fun no_placeholder :: "json \<Rightarrow> bool" where
  "no_placeholder (JStr s) = (\<not> is_placeholder s)"
| "no_placeholder (JArr xs) = (\<forall>x \<in> set xs. no_placeholder x)"
| "no_placeholder (JObj kvs) = (\<forall>v \<in> snd ` set kvs. no_placeholder v)"
| "no_placeholder _ = True"

text \<open>
  A description of the fields that may hold a token: \<open>may_hold t\<close> is a field that holds
  the token \<open>t\<close> or else no token at all; \<open>fields_as F\<close> is a dict whose field \<open>k\<close> is as
  \<open>F k\<close> describes; \<open>each_item P\<close> is a list whose items are as \<open>P\<close> describes. A value
  that is not of the described kind holds no token. \<open>fields_of\<close> takes the described
  fields from a table; a field the table does not name holds no token.
\<close>

definition may_hold :: "string \<Rightarrow> json \<Rightarrow> bool" where
  "may_hold token v \<longleftrightarrow> v = JStr token \<or> no_placeholder v"

definition fields_as :: "(string \<Rightarrow> json \<Rightarrow> bool) \<Rightarrow> json \<Rightarrow> bool" where
  "fields_as F v =
     (case v of
        JObj kvs \<Rightarrow> distinct (map fst kvs) \<and> (\<forall>kv \<in> set kvs. F (fst kv) (snd kv))
      | _ \<Rightarrow> no_placeholder v)"

definition fields_of :: "(string \<times> (json \<Rightarrow> bool)) list \<Rightarrow> json \<Rightarrow> bool" where
  "fields_of table = fields_as (\<lambda>k. case map_of table k of Some P \<Rightarrow> P | None \<Rightarrow> no_placeholder)"

definition each_item :: "(json \<Rightarrow> bool) \<Rightarrow> json \<Rightarrow> bool" where
  "each_item P v = (case v of JArr xs \<Rightarrow> \<forall>x \<in> set xs. P x | _ \<Rightarrow> no_placeholder v)"

text \<open>The fields in which the Restorer looks for a token, and the token it looks for.\<close>

definition AOAI_FIELDS :: "json \<Rightarrow> bool" where
  "AOAI_FIELDS =
     fields_of [(''resourceUri'', may_hold ''<AZURE_ENDPOINT_PLACEHOLDER>''),
                (''apiKey'', may_hold ''<REDACTED>'')]"

definition MODEL_FIELDS :: "json \<Rightarrow> bool" where
  "MODEL_FIELDS = fields_of [(''azureOpenAIParameters'', AOAI_FIELDS)]"

definition INDEXED_FIELDS :: "json \<Rightarrow> bool" where
  "INDEXED_FIELDS =
     fields_of [(''ingestionParameters'', fields_of [(''embeddingModel'', MODEL_FIELDS)])]"

definition KS_FIELDS :: "json \<Rightarrow> bool" where
  "KS_FIELDS =
     fields_of
       [(''@odata.context'', \<lambda>v. True),
        (''@odata.etag'', \<lambda>v. True),
        (''azureBlobParameters'',
           fields_of
             [(''connectionString'', may_hold ''<REDACTED>''),
              (''containerName'', may_hold ''<BLOB_CONTAINER_PLACEHOLDER>''),
              (''ingestionParameters'',
                 fields_of
                   [(''embeddingModel'', MODEL_FIELDS),
                    (''chatCompletionModel'', MODEL_FIELDS),
                    (''aiServices'',
                       fields_of [(''uri'', may_hold ''<AZURE_ENDPOINT_PLACEHOLDER>''),
                                  (''apiKey'', may_hold ''<REDACTED>'')])])]),
        (''indexedOneLakeParameters'', INDEXED_FIELDS),
        (''indexedSharePointParameters'', INDEXED_FIELDS)]"

definition KB_FIELDS :: "json \<Rightarrow> bool" where
  "KB_FIELDS =
     fields_of
       [(''@odata.context'', \<lambda>v. True),
        (''@odata.etag'', \<lambda>v. True),
        (''models'', each_item MODEL_FIELDS),
        (''inferenceParameters'', MODEL_FIELDS)]"

text \<open>
  \<open>placeholder_subst d d'\<close>: the document \<open>d'\<close> is \<open>d\<close> with some fields or list items
  that held a placeholder token given a new value, and nothing else changed: the same
  keys in the same order, the same list lengths, every other value the same.
\<close>

inductive placeholder_subst :: "json \<Rightarrow> json \<Rightarrow> bool" where
  same: "placeholder_subst v v"
| token: "is_placeholder s \<Longrightarrow> placeholder_subst (JStr s) v'"
| obj: "map fst kvs = map fst kvs' \<Longrightarrow>
        list_all2 (\<lambda>kv kv'. placeholder_subst (snd kv) (snd kv')) kvs kvs' \<Longrightarrow>
        placeholder_subst (JObj kvs) (JObj kvs')"
| arr: "list_all2 placeholder_subst xs xs' \<Longrightarrow> placeholder_subst (JArr xs) (JArr xs')"

text \<open>
  The Restorer also sets two fields in which it finds no token. \<open>set_without_token\<close> is a
  document with these two set and nothing else changed: in a non-empty
  \<^verbatim>\<open>azureBlobParameters\<close>, the \<^verbatim>\<open>connectionString\<close> that is missing, \<^verbatim>\<open>null\<close> or empty becomes
  the storage connection string, and a non-empty \<^verbatim>\<open>aiServices\<close> of its
  \<^verbatim>\<open>ingestionParameters\<close> becomes \<^verbatim>\<open>null\<close> when no AI-services credential is available.
  \<open>set_field k v d\<close> is \<open>d\<close> with the value \<open>v\<close> under the key \<open>k\<close>, \<open>in_field k f d\<close> is \<open>d\<close>
  with \<open>f\<close> applied to the value under \<open>k\<close>.
\<close>

definition set_field :: "string \<Rightarrow> json \<Rightarrow> json \<Rightarrow> json" where
  "set_field k v d = (case d of JObj kvs \<Rightarrow> JObj (AList.update k v kvs) | _ \<Rightarrow> d)"

definition in_field :: "string \<Rightarrow> (json \<Rightarrow> json) \<Rightarrow> json \<Rightarrow> json" where
  "in_field k f d = (case lookup_path d [Key k] of Some v \<Rightarrow> set_field k (f v) d | None \<Rightarrow> d)"

definition fill_connection_string :: "string \<Rightarrow> json \<Rightarrow> json" where
  "fill_connection_string storage_connection_string blob_params =
     (if value_at blob_params [Key ''connectionString''] \<in> {JNull, JStr ''''}
      then set_field ''connectionString'' (JStr storage_connection_string) blob_params
      else blob_params)"

definition remove_ai_services :: "bool \<Rightarrow> json \<Rightarrow> json" where
  "remove_ai_services available ingest_params =
     (if \<not> available \<and> truthy (value_at ingest_params [Key ''aiServices''])
      then set_field ''aiServices'' JNull ingest_params
      else ingest_params)"

definition set_without_token :: "string \<Rightarrow> bool \<Rightarrow> json \<Rightarrow> json" where
  "set_without_token storage_connection_string available d =
     in_field ''azureBlobParameters''
       (\<lambda>blob_params.
          if truthy blob_params
          then in_field ''ingestionParameters'' (remove_ai_services available)
                 (fill_connection_string storage_connection_string blob_params)
          else blob_params) d"

subsection \<open>Deployment\<close>

definition API_VERSION :: string where
  "API_VERSION = ''2025-11-01-preview''"

record put_request =
  put_url :: string
  put_api_key :: string
  put_json :: json

text \<open>
  What \<^verbatim>\<open>requests.put\<close> gives back: a response with its status code, its text and, when
  the text parses as JSON, the parsed body; or a \<^verbatim>\<open>RequestException\<close>.
\<close>

datatype put_outcome = Response int string "json option" | RequestException string

datatype log_line =
    LogHttpStatus int
  | LogErrorDetail json
  | LogResponseText string
  | LogRequestFailed string

definition report_response :: "put_outcome \<Rightarrow> bool \<times> log_line list" where
  "report_response outcome =
     (case outcome of
        Response status_code text parsed \<Rightarrow>
          if status_code \<in> {200, 201, 204} then (True, [])
          else (False,
                [LogHttpStatus status_code,
                 (case parsed of Some error_detail \<Rightarrow> LogErrorDetail error_detail
                                | None \<Rightarrow> LogResponseText text)])
      | RequestException e \<Rightarrow> (False, [LogRequestFailed e]))"

definition deploy_knowledge_source ::
  "(put_request \<Rightarrow> put_outcome) \<Rightarrow> string \<Rightarrow> string \<Rightarrow> string \<Rightarrow> json \<Rightarrow> bool \<times> log_line list" where
  "deploy_knowledge_source put search_endpoint search_key source_name source_data =
     report_response
       (put \<lparr>put_url = search_endpoint @ ''/knowledgesources/'' @ source_name @ ''?api-version='' @ API_VERSION,
             put_api_key = search_key, put_json = source_data\<rparr>)"

definition deploy_knowledge_base ::
  "(put_request \<Rightarrow> put_outcome) \<Rightarrow> string \<Rightarrow> string \<Rightarrow> string \<Rightarrow> json \<Rightarrow> bool \<times> log_line list" where
  "deploy_knowledge_base put search_endpoint search_key kb_name kb_data =
     report_response
       (put \<lparr>put_url = search_endpoint @ ''/knowledgebases/'' @ kb_name @ ''?api-version='' @ API_VERSION,
             put_api_key = search_key, put_json = kb_data\<rparr>)"

section \<open>Graph Exporter: \<^verbatim>\<open>main\<close> in \<^verbatim>\<open>scripts/dump_az_search.py\<close>\<close>

datatype res_kind = KnowledgeBase | KnowledgeSource | Index | Indexer | DataSource | Skillset | SynonymMap

text \<open>
  What \<^verbatim>\<open>http_get\<close> gives for a resource of a kind and a name: \<^verbatim>\<open>None\<close> on status 404,
  the parsed body on success, an exception (\<^verbatim>\<open>raise_for_status\<close>, or the transport) otherwise.
  The service is a parameter of the run.
\<close>

datatype fetched = NotFound | Found json | Failed

type_synonym service = "res_kind \<Rightarrow> json \<Rightarrow> fetched"

datatype message =
    KbHeader json
  | KbNotFound json
  | KsHeader json
  | KsNotFound json
  | ResolverNotice notice
  | ResourceNotFound res_kind json
  | Summary nat nat nat nat nat nat nat

text \<open>
  What a run does that can be seen from outside, in order: \<open>Get kind name\<close> is the call
  \<^verbatim>\<open>get_kb(endpoint, key, name)\<close>, \<^verbatim>\<open>get_ks(endpoint, key, name)\<close>, ... for the kind, \<open>Dump kind
  name obj\<close> the call of \<^verbatim>\<open>dump\<close> that writes \<open>obj\<close> to the file named after \<open>name\<close> in the
  directory of the kind, \<open>Print\<close> a line of output. The service answers a call by the kind
  and the name it was given.
\<close>

datatype event =
    Get res_kind json
  | Dump res_kind json json
  | Print message

record export_state =
  seen_indexes :: "json set"
  seen_indexers :: "json set"
  seen_datasources :: "json set"
  seen_skillsets :: "json set"
  seen_synmaps :: "json set"
  seen_ks :: "json set"
  trace :: "event list"

definition initial_state :: export_state where
  "initial_state =
     \<lparr>seen_indexes = {}, seen_indexers = {}, seen_datasources = {}, seen_skillsets = {},
      seen_synmaps = {}, seen_ks = {}, trace = []\<rparr>"

text \<open>
  A step either goes on with a new state or raises; an exception is not caught anywhere
  in \<^verbatim>\<open>main\<close>, so it ends the run, and it carries the state reached (the files written
  so far stay written).
\<close>

type_synonym step_result = "py_error \<times> export_state + export_state"

definition emit :: "event \<Rightarrow> export_state \<Rightarrow> export_state" where
  "emit e s = s\<lparr>trace := trace s @ [e]\<rparr>"

text \<open>Lifting an operation on documents that may raise.\<close>

definition try_py :: "py_error + 'a \<Rightarrow> export_state \<Rightarrow> ('a \<Rightarrow> step_result) \<Rightarrow> step_result" where
  "try_py m s f = (case m of Inl e \<Rightarrow> Inl (e, s) | Inr x \<Rightarrow> f x)"

text \<open>
  \<^verbatim>\<open>get_kb\<close>, \<^verbatim>\<open>get_ks\<close>, ...: the request is made, then the answer is \<^verbatim>\<open>None\<close>, a
  document, or an exception.
\<close>

definition http_get ::
  "service \<Rightarrow> res_kind \<Rightarrow> json \<Rightarrow> export_state \<Rightarrow> (json \<Rightarrow> export_state \<Rightarrow> step_result) \<Rightarrow> step_result" where
  "http_get svc kind name s f =
     (let s1 = emit (Get kind name) s
      in case svc kind name of
           Failed \<Rightarrow> Inl (HTTPError, s1)
         | NotFound \<Rightarrow> f JNull s1
         | Found doc \<Rightarrow> f doc s1)"

text \<open>\<^verbatim>\<open>dump\<close>: the file is written, and writing it is taken to succeed.\<close>

definition dump :: "res_kind \<Rightarrow> json \<Rightarrow> json \<Rightarrow> export_state \<Rightarrow> export_state" where
  "dump kind name obj s = emit (Dump kind name obj) s"

text \<open>\<^verbatim>\<open>for x in xs: body\<close>; \<^verbatim>\<open>continue\<close> is the body returning its state.\<close>

fun for_each :: "('a \<Rightarrow> export_state \<Rightarrow> step_result) \<Rightarrow> 'a list \<Rightarrow> export_state \<Rightarrow> step_result" where
  "for_each body [] s = Inr s"
| "for_each body (x # xs) s =
     (case body x s of Inl es \<Rightarrow> Inl es | Inr s' \<Rightarrow> for_each body xs s')"

text \<open>The synonym maps of a dumped index.\<close>

definition dump_synmap :: "service \<Rightarrow> json \<Rightarrow> export_state \<Rightarrow> step_result" where
  "dump_synmap svc sm s =
     (if \<not> truthy sm then Inr s
      else if \<not> hashable sm then Inl (TypeError, s)
      else if py_in_set sm (seen_synmaps s) then Inr s
      else http_get svc SynonymMap sm s (\<lambda>syn s1.
             let s2 = (if truthy syn then dump SynonymMap sm syn s1 else s1)
             in Inr (s2\<lparr>seen_synmaps := insert sm (seen_synmaps s2)\<rparr>)))"

definition dump_index :: "service \<Rightarrow> json \<Rightarrow> export_state \<Rightarrow> step_result" where
  "dump_index svc index_name s =
     (if \<not> truthy index_name then Inr s
      else if \<not> hashable index_name then Inl (TypeError, s)
      else if py_in_set index_name (seen_indexes s) then Inr s
      else http_get svc Index index_name s (\<lambda>index s1.
             if truthy index then
               (let s2 = dump Index index_name index s1;
                    s3 = s2\<lparr>seen_indexes := insert index_name (seen_indexes s2)\<rparr>
                in try_py (py_get_default index ''synonymMaps'' (JArr [])) s3 (\<lambda>sms.
                   try_py (py_iter sms) s3 (\<lambda>items.
                     for_each (dump_synmap svc) items s3)))
             else Inr (emit (Print (ResourceNotFound Index index_name)) s1)))"

text \<open>
  The indexer, the data source and the skillset are dumped by the same lines, each with
  its own \<^verbatim>\<open>seen\<close> set.
\<close>

definition dump_dependent ::
  "service \<Rightarrow> res_kind \<Rightarrow> (export_state \<Rightarrow> json set) \<Rightarrow> (json \<Rightarrow> export_state \<Rightarrow> export_state)
   \<Rightarrow> json \<Rightarrow> export_state \<Rightarrow> step_result" where
  "dump_dependent svc kind seen mark name s =
     (if \<not> truthy name then Inr s
      else if \<not> hashable name then Inl (TypeError, s)
      else if py_in_set name (seen s) then Inr s
      else http_get svc kind name s (\<lambda>doc s1.
             if truthy doc then Inr (mark name (dump kind name doc s1))
             else Inr (emit (Print (ResourceNotFound kind name)) s1)))"

definition dump_resources :: "service \<Rightarrow> resources \<Rightarrow> export_state \<Rightarrow> step_result" where
  "dump_resources svc r s =
     bind_err (dump_index svc (indexName r) s) (\<lambda>s1.
     bind_err (dump_dependent svc Indexer seen_indexers
                 (\<lambda>n t. t\<lparr>seen_indexers := insert n (seen_indexers t)\<rparr>) (indexerName r) s1) (\<lambda>s2.
     bind_err (dump_dependent svc DataSource seen_datasources
                 (\<lambda>n t. t\<lparr>seen_datasources := insert n (seen_datasources t)\<rparr>) (dataSourceName r) s2) (\<lambda>s3.
       dump_dependent svc Skillset seen_skillsets
         (\<lambda>n t. t\<lparr>seen_skillsets := insert n (seen_skillsets t)\<rparr>) (skillsetName r) s3)))"

text \<open>The body of \<^verbatim>\<open>for ks_ref in kb.get("knowledgeSources", [])\<close>.\<close>

definition dump_ks_ref :: "service \<Rightarrow> json \<Rightarrow> export_state \<Rightarrow> step_result" where
  "dump_ks_ref svc ks_ref s =
     try_py (py_get ks_ref ''name'') s (\<lambda>ks_name.
       if \<not> truthy ks_name then Inr s
       else if \<not> hashable ks_name then Inl (TypeError, s)
       else if py_in_set ks_name (seen_ks s) then Inr s
       else http_get svc KnowledgeSource ks_name (emit (Print (KsHeader ks_name)) s) (\<lambda>ks s1.
              if \<not> truthy ks then Inr (emit (Print (KsNotFound ks_name)) s1)
              else
                (let s2 = dump KnowledgeSource ks_name ks s1;
                     s3 = s2\<lparr>seen_ks := insert ks_name (seen_ks s2)\<rparr>
                 in try_py (extract_resources_from_ks ks) s3 (\<lambda>(resources, notices).
                      dump_resources svc resources
                        (s3\<lparr>trace := trace s3 @ map (\<lambda>n. Print (ResolverNotice n)) notices\<rparr>)))))"

text \<open>The body of \<^verbatim>\<open>for kb_name in kb_names\<close>.\<close>

definition dump_kb :: "service \<Rightarrow> json \<Rightarrow> export_state \<Rightarrow> step_result" where
  "dump_kb svc kb_name s =
     http_get svc KnowledgeBase kb_name (emit (Print (KbHeader kb_name)) s) (\<lambda>kb s1.
       if \<not> truthy kb then Inr (emit (Print (KbNotFound kb_name)) s1)
       else
         (let s2 = dump KnowledgeBase kb_name kb s1
          in try_py (py_get_default kb ''knowledgeSources'' (JArr [])) s2 (\<lambda>refs.
             try_py (py_iter refs) s2 (\<lambda>items.
               for_each (dump_ks_ref svc) items s2))))"

definition export_main :: "service \<Rightarrow> json list \<Rightarrow> step_result" where
  "export_main svc kb_names =
     bind_err (for_each (dump_kb svc) kb_names initial_state) (\<lambda>s.
       Inr (emit (Print (Summary (length kb_names) (card (seen_ks s)) (card (seen_indexes s))
                          (card (seen_indexers s)) (card (seen_datasources s))
                          (card (seen_skillsets s)) (card (seen_synmaps s)))) s))"

text \<open>The state a run ends in, and how often a knowledge source was fetched and written.\<close>

definition final_state :: "step_result \<Rightarrow> export_state" where
  "final_state r = (case r of Inl (e, s) \<Rightarrow> s | Inr s \<Rightarrow> s)"

definition fetches_of_ks :: "json \<Rightarrow> event list \<Rightarrow> nat" where
  "fetches_of_ks n evs = length (filter (\<lambda>e. e = Get KnowledgeSource n) evs)"

definition dumps_of_ks :: "json \<Rightarrow> event list \<Rightarrow> nat" where
  "dumps_of_ks n evs =
     length (filter (\<lambda>e. case e of Dump KnowledgeSource m doc \<Rightarrow> m = n | _ \<Rightarrow> False) evs)"

text \<open>A knowledge base of the service that names the knowledge source \<open>n\<close>.\<close>

definition references :: "service \<Rightarrow> json \<Rightarrow> json \<Rightarrow> bool" where
  "references svc kb_name n =
     (case svc KnowledgeBase kb_name of
        Found kb \<Rightarrow>
          truthy kb \<and>
          (case py_get_default kb ''knowledgeSources'' (JArr []) of
             Inr (JArr refs) \<Rightarrow> list_ex (\<lambda>ks_ref. py_get ks_ref ''name'' = Inr n) refs
           | _ \<Rightarrow> False)
      | _ \<Rightarrow> False)"

definition ks_exists :: "service \<Rightarrow> json \<Rightarrow> bool" where
  "ks_exists svc n = (case svc KnowledgeSource n of Found ks \<Rightarrow> truthy ks | _ \<Rightarrow> False)"

text \<open>
  The part of a state that concerns knowledge sources: the dedup set and the
  knowledge-source events of the trace.
\<close>

fun is_ks_event :: "event \<Rightarrow> bool" where
  "is_ks_event (Get kind n) = (kind = KnowledgeSource)"
| "is_ks_event (Dump kind n doc) = (kind = KnowledgeSource)"
| "is_ks_event (Print m) = False"

definition ks_view :: "export_state \<Rightarrow> json set \<times> event list" where
  "ks_view s = (seen_ks s, filter is_ks_event (trace s))"

text \<open>
  The invariant of the run: a name in the dedup set was fetched once, with success, and
  written once; a name outside it was never written and, if it exists, never fetched.
\<close>

definition ks_inv :: "service \<Rightarrow> json set \<times> event list \<Rightarrow> bool" where
  "ks_inv svc v =
     (\<forall>n. dumps_of_ks n (snd v) = (if n \<in> fst v then 1 else 0)
        \<and> (ks_exists svc n \<longrightarrow> fetches_of_ks n (snd v) = (if n \<in> fst v then 1 else 0))
        \<and> (n \<in> fst v \<longrightarrow> ks_exists svc n))"

text \<open>What one reference does to the knowledge-source view.\<close>

definition ks_step :: "service \<Rightarrow> json \<Rightarrow> json set \<times> event list \<Rightarrow> json set \<times> event list" where
  "ks_step svc ks_ref v =
     (case py_get ks_ref ''name'' of
        Inl e \<Rightarrow> v
      | Inr n \<Rightarrow>
          if \<not> truthy n \<or> \<not> hashable n \<or> py_in_set n (fst v) then v
          else if ks_exists svc n then
            (insert n (fst v),
             snd v @ [Get KnowledgeSource n, Dump KnowledgeSource n (case svc KnowledgeSource n of Found ks \<Rightarrow> ks | _ \<Rightarrow> JNull)])
          else (fst v, snd v @ [Get KnowledgeSource n]))"

text \<open>Two services for examples: both have every knowledge base, each naming the knowledge
  source \<^verbatim>\<open>ks1\<close>; the first has no knowledge source, the second has every one.\<close>

definition service_without_ks1 :: service where
  "service_without_ks1 kind name =
     (if kind = KnowledgeBase
      then Found (JObj [(''name'', name),
                        (''knowledgeSources'', JArr [JObj [(''name'', JStr ''ks1'')]])])
      else NotFound)"

definition service_with_ks1 :: service where
  "service_with_ks1 kind name =
     (if kind = KnowledgeBase
      then Found (JObj [(''name'', name),
                        (''knowledgeSources'', JArr [JObj [(''name'', JStr ''ks1'')]])])
      else if kind = KnowledgeSource
      then Found (JObj [(''name'', name), (''kind'', JStr ''web'')])
      else NotFound)"

section \<open>The Sanitizer on objects in memory\<close>

text \<open>
  Python dicts and lists are objects that are reached through references and changed in
  place. To say what \<^verbatim>\<open>sanitize_dict\<close> and \<^verbatim>\<open>sanitize_list\<close> leave alone, the documents
  are put in a store: an object has an address, a dict or list holds scalars and addresses.
  A new object gets the next free address.
\<close>

type_synonym addr = nat

datatype pval = PNone | PBool bool | PInt int | PFloat int int | PStr string | PRef addr

datatype pobj = PDict "(string \<times> pval) list" | PList "pval list"

type_synonym heap = "pobj list"

definition lookup_obj :: "heap \<Rightarrow> addr \<Rightarrow> pobj option" where
  "lookup_obj h a = (if a < length h then Some (h ! a) else None)"

text \<open>\<^verbatim>\<open>result[key] = v\<close> and \<^verbatim>\<open>result.append(v)\<close>, on the object at \<open>result\<close>.\<close>

definition set_item :: "heap \<Rightarrow> addr \<Rightarrow> string \<Rightarrow> pval \<Rightarrow> heap" where
  "set_item h result key v =
     (case lookup_obj h result of
        Some (PDict items) \<Rightarrow> h[result := PDict (AList.update key v items)]
      | _ \<Rightarrow> h)"

definition append_item :: "heap \<Rightarrow> addr \<Rightarrow> pval \<Rightarrow> heap" where
  "append_item h result v =
     (case lookup_obj h result of
        Some (PList vs) \<Rightarrow> h[result := PList (vs @ [v])]
      | _ \<Rightarrow> h)"

text \<open>A value that is not a dict or list, as a document and back.\<close>

fun scalar_json :: "pval \<Rightarrow> json" where
  "scalar_json PNone = JNull"
| "scalar_json (PBool b) = JBool b"
| "scalar_json (PInt i) = JInt i"
| "scalar_json (PFloat m e) = JFloat m e"
| "scalar_json (PStr s) = JStr s"
| "scalar_json (PRef a) = JNull"

fun scalar_pval :: "json \<Rightarrow> pval" where
  "scalar_pval JNull = PNone"
| "scalar_pval (JBool b) = PBool b"
| "scalar_pval (JInt i) = PInt i"
| "scalar_pval (JFloat m e) = PFloat m e"
| "scalar_pval (JStr s) = PStr s"
| "scalar_pval _ = PNone"

text \<open>
  The two functions and their loops. The first argument bounds the depth of the recursion;
  \<open>None\<close> means that the bound was reached, or that an address does not hold what the code
  was told it holds.
\<close>

function sanitize_dict_h :: "nat \<Rightarrow> heap \<Rightarrow> addr \<Rightarrow> string \<Rightarrow> (heap \<times> addr) option"
and dict_loop_h :: "nat \<Rightarrow> heap \<Rightarrow> addr \<Rightarrow> (string \<times> pval) list \<Rightarrow> string \<Rightarrow> heap option"
and sanitize_list_h :: "nat \<Rightarrow> heap \<Rightarrow> string \<Rightarrow> addr \<Rightarrow> (heap \<times> addr) option"
and list_loop_h :: "nat \<Rightarrow> heap \<Rightarrow> addr \<Rightarrow> string \<Rightarrow> pval list \<Rightarrow> heap option"
where
  "sanitize_dict_h 0 h data parent_key = None"
| "sanitize_dict_h (Suc n) h data parent_key =
     (case lookup_obj h data of
        Some (PDict items) \<Rightarrow>
          (case dict_loop_h n (h @ [PDict []]) (length h) items parent_key of
             None \<Rightarrow> None
           | Some h' \<Rightarrow> Some (h', length h))
      | _ \<Rightarrow> None)"
| "dict_loop_h n h result [] parent_key = Some h"
| "dict_loop_h n h result (kv # rest) parent_key =
     (case snd kv of
        PRef p \<Rightarrow>
          (case lookup_obj h p of
             Some (PDict items) \<Rightarrow>
               (case sanitize_dict_h n h p (fst kv) of
                  None \<Rightarrow> None
                | Some hq \<Rightarrow>
                    dict_loop_h n (set_item (fst hq) result (fst kv) (PRef (snd hq))) result rest
                      parent_key)
           | Some (PList vs) \<Rightarrow>
               (case sanitize_list_h n h (fst kv) p of
                  None \<Rightarrow> None
                | Some hq \<Rightarrow>
                    dict_loop_h n (set_item (fst hq) result (fst kv) (PRef (snd hq))) result rest
                      parent_key)
           | None \<Rightarrow> None)
      | v \<Rightarrow>
          dict_loop_h n
            (set_item h result (fst kv)
               (scalar_pval (if is_legacy_container parent_key (fst kv) (scalar_json v)
                             then JStr CONTAINER_PLACEHOLDER
                             else sanitize_value (fst kv) (scalar_json v))))
            result rest parent_key)"
| "sanitize_list_h 0 h parent_key data = None"
| "sanitize_list_h (Suc n) h parent_key data =
     (case lookup_obj h data of
        Some (PList vs) \<Rightarrow>
          (case list_loop_h n (h @ [PList []]) (length h) parent_key vs of
             None \<Rightarrow> None
           | Some h' \<Rightarrow> Some (h', length h))
      | _ \<Rightarrow> None)"
| "list_loop_h n h result parent_key [] = Some h"
| "list_loop_h n h result parent_key (item # rest) =
     (case item of
        PRef p \<Rightarrow>
          (case lookup_obj h p of
             Some (PDict items) \<Rightarrow>
               (case sanitize_dict_h n h p parent_key of
                  None \<Rightarrow> None
                | Some hq \<Rightarrow>
                    list_loop_h n (append_item (fst hq) result (PRef (snd hq))) result parent_key rest)
           | Some (PList vs) \<Rightarrow>
               (case sanitize_list_h n h parent_key p of
                  None \<Rightarrow> None
                | Some hq \<Rightarrow>
                    list_loop_h n (append_item (fst hq) result (PRef (snd hq))) result parent_key rest)
           | None \<Rightarrow> None)
      | v \<Rightarrow>
          list_loop_h n (append_item h result (scalar_pval (sanitize_value parent_key (scalar_json v))))
            result parent_key rest)"
  by pat_completeness auto

termination
  by (relation "inv_image (less_than <*lex*> less_than) (\<lambda>x. case x of
          Inl (Inl (n, h, a, pk)) \<Rightarrow> (2 * n, 0)
        | Inl (Inr (n, h, r, items, pk)) \<Rightarrow> (2 * n + 1, length items)
        | Inr (Inl (n, h, pk, a)) \<Rightarrow> (2 * n, 0)
        | Inr (Inr (n, h, r, pk, vs)) \<Rightarrow> (2 * n + 1, length vs))") auto

text \<open>
  \<open>repr_in A h v j\<close>: in the store \<open>h\<close> the value \<open>v\<close> is the document \<open>j\<close>, and every
  object that belongs to it has its address in \<open>A\<close>.
\<close>

fun repr_in :: "addr set \<Rightarrow> heap \<Rightarrow> pval \<Rightarrow> json \<Rightarrow> bool"
and repr_items :: "addr set \<Rightarrow> heap \<Rightarrow> (string \<times> pval) list \<Rightarrow> (string \<times> json) list \<Rightarrow> bool"
and repr_list :: "addr set \<Rightarrow> heap \<Rightarrow> pval list \<Rightarrow> json list \<Rightarrow> bool"
where
  "repr_in A h v JNull = (v = PNone)"
| "repr_in A h v (JBool b) = (v = PBool b)"
| "repr_in A h v (JInt i) = (v = PInt i)"
| "repr_in A h v (JFloat m e) = (v = PFloat m e)"
| "repr_in A h v (JStr s) = (v = PStr s)"
| "repr_in A h v (JArr xs) =
     (case v of
        PRef a \<Rightarrow> a \<in> A \<and> (case lookup_obj h a of Some (PList vs) \<Rightarrow> repr_list A h vs xs | _ \<Rightarrow> False)
      | _ \<Rightarrow> False)"
| "repr_in A h v (JObj kvs) =
     (case v of
        PRef a \<Rightarrow> a \<in> A \<and> (case lookup_obj h a of Some (PDict items) \<Rightarrow> repr_items A h items kvs | _ \<Rightarrow> False)
      | _ \<Rightarrow> False)"
| "repr_items A h items [] = (items = [])"
| "repr_items A h items (kv # kvs) =
     (case items of
        [] \<Rightarrow> False
      | iv # ivs \<Rightarrow> fst iv = fst kv \<and> repr_in A h (snd iv) (snd kv) \<and> repr_items A h ivs kvs)"
| "repr_list A h vs [] = (vs = [])"
| "repr_list A h vs (x # xs) =
     (case vs of [] \<Rightarrow> False | v # vs' \<Rightarrow> repr_in A h v x \<and> repr_list A h vs' xs)"

text \<open>The nesting depth of a document, which bounds the recursion.\<close>

fun depth :: "json \<Rightarrow> nat"
and depth_items :: "(string \<times> json) list \<Rightarrow> nat"
and depth_list :: "json list \<Rightarrow> nat"
where
  "depth (JObj kvs) = Suc (depth_items kvs)"
| "depth (JArr xs) = Suc (depth_list xs)"
| "depth JNull = 0"
| "depth (JBool b) = 0"
| "depth (JInt i) = 0"
| "depth (JFloat m e) = 0"
| "depth (JStr s) = 0"
| "depth_items [] = 0"
| "depth_items (kv # kvs) = max (depth (snd kv)) (depth_items kvs)"
| "depth_list [] = 0"
| "depth_list (x # xs) = max (depth x) (depth_list xs)"

text \<open>
  What a call of \<^verbatim>\<open>sanitize_dict\<close> and of \<^verbatim>\<open>sanitize_list\<close> does to a store, for
  documents nested no deeper than \<open>n\<close>: it returns, the objects of the store it was given
  are as they were, and the result is made of new objects and holds the document that the
  transform computes.
\<close>

definition dict_spec :: "nat \<Rightarrow> bool" where
  "dict_spec n \<longleftrightarrow>
     (\<forall>h data pk d.
        repr_in {a. a < length h} h (PRef data) (JObj d) \<longrightarrow> depth (JObj d) \<le> n \<longrightarrow>
        (\<exists>h'. sanitize_dict_h n h data pk = Some (h', length h)
            \<and> length h < length h' \<and> take (length h) h' = h
            \<and> repr_in {a. length h \<le> a} h' (PRef (length h)) (JObj (sanitize_dict d pk))))"

definition list_spec :: "nat \<Rightarrow> bool" where
  "list_spec n \<longleftrightarrow>
     (\<forall>h data pk xs.
        repr_in {a. a < length h} h (PRef data) (JArr xs) \<longrightarrow> depth (JArr xs) \<le> n \<longrightarrow>
        (\<exists>h'. sanitize_list_h n h pk data = Some (h', length h)
            \<and> length h < length h' \<and> take (length h) h' = h
            \<and> repr_in {a. length h \<le> a} h' (PRef (length h)) (JArr (sanitize_list pk xs))))"

text \<open>
  \<^verbatim>\<open>json.load\<close> builds the objects of a document, the inner ones first; \<^verbatim>\<open>json.dumps\<close>
  walks them. \<open>alloc\<close> puts a document in the store, \<open>read_h\<close> reads one back, down to
  a given depth.
\<close>

fun alloc :: "json \<Rightarrow> heap \<Rightarrow> heap \<times> pval"
and alloc_items :: "(string \<times> json) list \<Rightarrow> heap \<Rightarrow> heap \<times> (string \<times> pval) list"
and alloc_list :: "json list \<Rightarrow> heap \<Rightarrow> heap \<times> pval list"
where
  "alloc JNull h = (h, PNone)"
| "alloc (JBool b) h = (h, PBool b)"
| "alloc (JInt i) h = (h, PInt i)"
| "alloc (JFloat m e) h = (h, PFloat m e)"
| "alloc (JStr s) h = (h, PStr s)"
| "alloc (JObj kvs) h =
     (case alloc_items kvs h of (h1, items) \<Rightarrow> (h1 @ [PDict items], PRef (length h1)))"
| "alloc (JArr xs) h =
     (case alloc_list xs h of (h1, vs) \<Rightarrow> (h1 @ [PList vs], PRef (length h1)))"
| "alloc_items [] h = (h, [])"
| "alloc_items (kv # kvs) h =
     (case alloc (snd kv) h of (h1, v) \<Rightarrow>
        (case alloc_items kvs h1 of (h2, items) \<Rightarrow> (h2, (fst kv, v) # items)))"
| "alloc_list [] h = (h, [])"
| "alloc_list (x # xs) h =
     (case alloc x h of (h1, v) \<Rightarrow>
        (case alloc_list xs h1 of (h2, vs) \<Rightarrow> (h2, v # vs)))"

fun read_h :: "nat \<Rightarrow> heap \<Rightarrow> pval \<Rightarrow> json option" where
  "read_h n h PNone = Some JNull"
| "read_h n h (PBool b) = Some (JBool b)"
| "read_h n h (PInt i) = Some (JInt i)"
| "read_h n h (PFloat m e) = Some (JFloat m e)"
| "read_h n h (PStr s) = Some (JStr s)"
| "read_h 0 h (PRef a) = None"
| "read_h (Suc n) h (PRef a) =
     (case lookup_obj h a of
        Some (PDict items) \<Rightarrow>
          map_option JObj (those (map (\<lambda>kv. map_option (Pair (fst kv)) (read_h n h (snd kv))) items))
      | Some (PList vs) \<Rightarrow> map_option JArr (those (map (read_h n h) vs))
      | None \<Rightarrow> None)"

text \<open>
  \<^verbatim>\<open>sanitize_file\<close>. The files are a map from paths to their text; \<open>loads\<close> is the parser
  (\<open>None\<close>: the text is not JSON), \<open>dumps\<close> the serialiser of the comparison and \<open>dump_json\<close> the
  one that writes. A file that cannot be opened and a value that cannot be iterated raise,
  and so does a document nested deeper than \<open>limit\<close>.
\<close>

type_synonym files = "string \<rightharpoonup> string"

datatype file_message = Skipping | WouldModify | NoChanges | Sanitized

datatype file_error = OSError | NotIterable | RecursionError

datatype file_outcome = Returned bool file_message | Raised file_error

text \<open>\<^verbatim>\<open>sanitize_dict(data, "") if isinstance(data, dict) else sanitize_list("", data)\<close>;
  iterating a string gives its characters.\<close>

definition sanitize_data :: "nat \<Rightarrow> heap \<Rightarrow> pval \<Rightarrow> file_error + heap \<times> pval" where
  "sanitize_data limit h data =
     (case data of
        PRef a \<Rightarrow>
          (case lookup_obj h a of
             Some (PDict items) \<Rightarrow>
               (case sanitize_dict_h limit h a '''' of
                  None \<Rightarrow> Inl RecursionError
                | Some hq \<Rightarrow> Inr (fst hq, PRef (snd hq)))
           | Some (PList vs) \<Rightarrow>
               (case sanitize_list_h limit h '''' a of
                  None \<Rightarrow> Inl RecursionError
                | Some hq \<Rightarrow> Inr (fst hq, PRef (snd hq)))
           | None \<Rightarrow> Inl RecursionError)
      | PStr s \<Rightarrow>
          (case limit of
             0 \<Rightarrow> Inl RecursionError
           | Suc n \<Rightarrow>
               (case list_loop_h n (h @ [PList []]) (length h) '''' (map (\<lambda>c. PStr [c]) s) of
                  None \<Rightarrow> Inl RecursionError
                | Some h' \<Rightarrow> Inr (h', PRef (length h))))
      | _ \<Rightarrow> Inl NotIterable)"

definition sanitize_file ::
  "(string \<Rightarrow> json option) \<Rightarrow> (json \<Rightarrow> string) \<Rightarrow> (json \<Rightarrow> string) \<Rightarrow> nat \<Rightarrow>
   files \<Rightarrow> string \<Rightarrow> bool \<Rightarrow> file_outcome \<times> files" where
  "sanitize_file loads dumps dump_json limit fs file_path dry_run =
     (case fs file_path of
        None \<Rightarrow> (Raised OSError, fs)
      | Some text \<Rightarrow>
          (case loads text of
             None \<Rightarrow> (Returned False Skipping, fs)
           | Some j \<Rightarrow>
               (case alloc j [] of (h, data) \<Rightarrow>
                  (case sanitize_data limit h data of
                     Inl e \<Rightarrow> (Raised e, fs)
                   | Inr (h', sanitized) \<Rightarrow>
                       if dry_run then
                         (case read_h limit h' data of
                            None \<Rightarrow> (Raised RecursionError, fs)
                          | Some original \<Rightarrow>
                              (case read_h limit h' sanitized of
                                 None \<Rightarrow> (Raised RecursionError, fs)
                               | Some modified \<Rightarrow>
                                   if dumps original \<noteq> dumps modified
                                   then (Returned True WouldModify, fs)
                                   else (Returned False NoChanges, fs)))
                       else
                         (case read_h limit h' sanitized of
                            None \<Rightarrow> (Raised RecursionError, fs)
                          | Some modified \<Rightarrow>
                              (Returned True Sanitized, fs(file_path \<mapsto> dump_json modified)))))))"

text \<open>The same line of \<^verbatim>\<open>sanitize_file\<close> on documents as values.\<close>

definition sanitize_document :: "json \<Rightarrow> json option" where
  "sanitize_document j =
     (case j of
        JObj d \<Rightarrow> Some (JObj (sanitize_dict d ''''))
      | JArr xs \<Rightarrow> Some (JArr (sanitize_list '''' xs))
      | JStr s \<Rightarrow> Some (JArr (sanitize_list '''' (map (\<lambda>c. JStr [c]) s)))
      | _ \<Rightarrow> None)"


section \<open>Properties of the Sanitizer\<close>

lemma sanitize_list_loop_acc:
  "sanitize_list_loop pk xs result = result @ map (san_node False pk pk) xs"
proof (induction xs arbitrary: result)
  case Nil
  then show ?case by simp
next
  case (Cons x xs)
  show ?case
    by (cases x) (simp_all add: Cons.IH san_node_def sanitize_dict_def sanitize_list_def)
qed

lemma sanitize_list_map: "sanitize_list pk xs = map (san_node False pk pk) xs"
  by (simp add: sanitize_list_def sanitize_list_loop_acc)

lemma update_fresh: "k \<notin> fst ` set al \<Longrightarrow> AList.update k v al = al @ [(k, v)]"
  by (induction al) auto

lemma sanitize_dict_loop_acc:
  "distinct (map fst kvs) \<Longrightarrow> fst ` set kvs \<inter> fst ` set result = {} \<Longrightarrow>
   sanitize_dict_loop kvs pk result = result @ map (\<lambda>(k, v). (k, san_node True pk k v)) kvs"
proof (induction kvs arbitrary: result)
  case Nil
  then show ?case by simp
next
  case (Cons kv kvs)
  obtain k v where kv: "kv = (k, v)" by (cases kv)
  have fresh: "k \<notin> fst ` set result" using Cons.prems kv by auto
  have disj: "\<And>w. fst ` set kvs \<inter> fst ` set (result @ [(k, w)]) = {}"
    using Cons.prems kv by auto
  have dist: "distinct (map fst kvs)" using Cons.prems by simp
  show ?case
    by (cases v)
      (simp_all add: kv update_fresh[OF fresh] Cons.IH[OF dist disj] san_node_def
        sanitize_dict_def sanitize_list_def)
qed

lemma sanitize_dict_map:
  "distinct (map fst kvs) \<Longrightarrow>
   sanitize_dict kvs pk = map (\<lambda>(k, v). (k, san_node True pk k v)) kvs"
  by (simp add: sanitize_dict_def sanitize_dict_loop_acc)

lemma sanitize_dict_keys:
  "distinct (map fst kvs) \<Longrightarrow> map fst (sanitize_dict kvs pk) = map fst kvs"
  by (simp add: sanitize_dict_map case_prod_beta comp_def)

lemma san_node_JObj: "san_node c pk k (JObj d) = JObj (sanitize_dict d k)"
  by (simp add: san_node_def)

lemma san_node_JArr: "san_node c pk k (JArr xs) = JArr (sanitize_list k xs)"
  by (simp add: san_node_def)

subsection \<open>The placeholders are fixed points of the value rules\<close>

lemma not_azure_url_placeholders:
  "\<not> is_azure_url (JStr URL_PLACEHOLDER)"
  "\<not> is_azure_url (JStr REDACTED_PLACEHOLDER)"
  "\<not> is_azure_url (JStr CONTAINER_PLACEHOLDER)"
  by (simp_all add: is_azure_url_def re_match_azure_def URL_PLACEHOLDER_def
      REDACTED_PLACEHOLDER_def CONTAINER_PLACEHOLDER_def lower_def lower_char_def
      AZURE_URL_DOMAINS_def)

lemma placeholders_not_legacy:
  "URL_PLACEHOLDER \<notin> set LEGACY_CONTAINER_NAMES"
  "REDACTED_PLACEHOLDER \<notin> set LEGACY_CONTAINER_NAMES"
  "CONTAINER_PLACEHOLDER \<notin> set LEGACY_CONTAINER_NAMES"
  by (simp_all add: LEGACY_CONTAINER_NAMES_def URL_PLACEHOLDER_def
      REDACTED_PLACEHOLDER_def CONTAINER_PLACEHOLDER_def)

lemma not_legacy_placeholders:
  "\<not> is_legacy_container pk k (JStr URL_PLACEHOLDER)"
  "\<not> is_legacy_container pk k (JStr REDACTED_PLACEHOLDER)"
  "\<not> is_legacy_container pk k (JStr CONTAINER_PLACEHOLDER)"
  by (simp_all add: is_legacy_container_def placeholders_not_legacy Let_def)

lemma container_key_not_secret:
  assumes "lower k = ''name'' \<or> lower k = ''containername''"
  shows "\<not> should_redact_key k" and "\<not> should_redact_url_key k"
  using assms
  by (auto simp add: should_redact_key_def should_redact_url_key_def SENSITIVE_KEYS_def
      URL_KEYS_def remove_char_def Let_def)

lemma sanitize_value_container:
  "is_legacy_container pk k v \<Longrightarrow>
   sanitize_value k (JStr CONTAINER_PLACEHOLDER) = JStr CONTAINER_PLACEHOLDER"
  using container_key_not_secret[of k]
  by (auto simp add: sanitize_value_def not_azure_url_placeholders is_legacy_container_def Let_def)

lemma sanitize_value_idem:
  "sanitize_value k (sanitize_value k v) = sanitize_value k v"
  by (cases v)
    (auto simp add: sanitize_value_def not_azure_url_placeholders is_azure_url_def
      REDACTED_PLACEHOLDER_def)

lemma sanitize_value_not_legacy:
  "\<not> is_legacy_container pk k v \<Longrightarrow> \<not> is_legacy_container pk k (sanitize_value k v)"
  by (cases v)
    (auto simp add: sanitize_value_def placeholders_not_legacy is_azure_url_def
      is_legacy_container_def Let_def split: if_splits)

lemma sanitize_value_scalar:
  "(\<forall>d. v \<noteq> JObj d) \<Longrightarrow> (\<forall>xs. v \<noteq> JArr xs) \<Longrightarrow>
   (\<forall>d. sanitize_value k v \<noteq> JObj d) \<and> (\<forall>xs. sanitize_value k v \<noteq> JArr xs)"
  by (cases v) (auto simp add: sanitize_value_def is_azure_url_def)

lemma san_node_scalar_idem:
  assumes "\<forall>d. v \<noteq> JObj d" "\<forall>xs. v \<noteq> JArr xs"
  shows "san_node c pk k (san_node c pk k v) = san_node c pk k v"
proof (cases "c \<and> is_legacy_container pk k v")
  case True
  then have "san_node c pk k v = JStr CONTAINER_PLACEHOLDER"
    using assms by (cases v) (simp_all add: san_node_def)
  moreover have "san_node c pk k (JStr CONTAINER_PLACEHOLDER) = JStr CONTAINER_PLACEHOLDER"
    using True sanitize_value_container[of pk k v]
    by (simp add: san_node_def not_legacy_placeholders)
  ultimately show ?thesis by simp
next
  case False
  then have eq: "san_node c pk k v = sanitize_value k v"
    using assms by (cases v) (auto simp add: san_node_def)
  have sc: "(\<forall>d. sanitize_value k v \<noteq> JObj d) \<and> (\<forall>xs. sanitize_value k v \<noteq> JArr xs)"
    using assms by (rule sanitize_value_scalar)
  have nl: "\<not> (c \<and> is_legacy_container pk k (sanitize_value k v))"
    using False sanitize_value_not_legacy by blast
  have "san_node c pk k (sanitize_value k v) = sanitize_value k (sanitize_value k v)"
    using sc nl by (cases "sanitize_value k v") (auto simp add: san_node_def)
  then show ?thesis by (simp add: eq sanitize_value_idem)
qed

subsection \<open>Idempotence and shape\<close>

lemma san_node_idem:
  "wf_json v \<Longrightarrow> san_node c pk k (san_node c pk k v) = san_node c pk k v"
proof (induction v arbitrary: c pk k)
  case (JArr xs)
  have "map (san_node False k k) (map (san_node False k k) xs) = map (san_node False k k) xs"
    using JArr by (induction xs) auto
  then show ?case by (simp add: san_node_JArr sanitize_list_map)
next
  case (JObj kvs)
  let ?f = "\<lambda>(k', v'). (k', san_node True k k' v')"
  have d: "distinct (map fst kvs)" using JObj.prems by simp
  have d': "distinct (map fst (map ?f kvs))"
    using d by (simp add: case_prod_beta comp_def)
  have "map ?f (map ?f kvs) = map ?f kvs"
  proof -
    have "\<And>kv. kv \<in> set kvs \<Longrightarrow> ?f (?f kv) = ?f kv"
    proof -
      fix kv assume m: "kv \<in> set kvs"
      obtain k' v' where kv: "kv = (k', v')" by (cases kv)
      have "wf_json v'" using JObj.prems m kv by force
      moreover have "v' \<in> Basic_BNFs.snds kv" using kv by simp
      ultimately have "san_node True k k' (san_node True k k' v') = san_node True k k' v'"
        using JObj.IH m by blast
      then show "?f (?f kv) = ?f kv" by (simp add: kv)
    qed
    then show ?thesis by simp
  qed
  then show ?case
    by (simp only: san_node_JObj sanitize_dict_map[OF d] sanitize_dict_map[OF d'])
qed (simp_all add: san_node_scalar_idem)

lemma wf_san_node: "wf_json v \<Longrightarrow> wf_json (san_node c pk k v)"
proof (induction v arbitrary: c pk k)
  case (JArr xs)
  then show ?case by (auto simp add: san_node_JArr sanitize_list_map)
next
  case (JObj kvs)
  have d: "distinct (map fst kvs)" using JObj.prems by simp
  have "\<And>k' v'. (k', v') \<in> set kvs \<Longrightarrow> wf_json (san_node True k k' v')"
  proof -
    fix k' v' assume m: "(k', v') \<in> set kvs"
    have "wf_json v'" using JObj.prems m by force
    then show "wf_json (san_node True k k' v')" using JObj.IH[OF m] by simp
  qed
  then show ?case using d
    by (auto simp add: san_node_JObj sanitize_dict_map[OF d] case_prod_beta comp_def)
qed (auto simp add: san_node_def sanitize_value_def)

subsection \<open>Sanitized values, addressed by path\<close>

lemma map_of_map_keyed:
  "map_of (map (\<lambda>(k, v). (k, g k v)) kvs) x = map_option (g x) (map_of kvs x)"
  by (induction kvs) auto

lemma lookup_san_node:
  "wf_json v \<Longrightarrow> lookup_path v p = Some w \<Longrightarrow>
   \<exists>c' pk' k'. lookup_path (san_node c pk k v) p = Some (san_node c' pk' k' w)"
proof (induction p arbitrary: v c pk k)
  case Nil
  then show ?case by auto
next
  case (Cons st p)
  show ?case
  proof (cases st)
    case (Key x)
    from Cons.prems(2) Key obtain kvs v' where
      v: "v = JObj kvs" and m: "map_of kvs x = Some v'" and l: "lookup_path v' p = Some w"
      by (cases v) (auto split: option.splits)
    have d: "distinct (map fst kvs)" using Cons.prems(1) v by simp
    have "wf_json v'" using Cons.prems(1) v map_of_SomeD[OF m] by force
    from Cons.IH[OF this l, of True k x] obtain c' pk' k' where
      "lookup_path (san_node True k x v') p = Some (san_node c' pk' k' w)" by blast
    then show ?thesis
      by (auto simp add: v Key san_node_JObj sanitize_dict_map[OF d] map_of_map_keyed m)
  next
    case (Idx i)
    from Cons.prems(2) Idx obtain xs where
      v: "v = JArr xs" and i: "i < length xs" and l: "lookup_path (xs ! i) p = Some w"
      by (cases v) (auto split: if_splits)
    have "wf_json (xs ! i)" using Cons.prems(1) v i by simp
    from Cons.IH[OF this l, of False k k] obtain c' pk' k' where
      "lookup_path (san_node False k k (xs ! i)) p = Some (san_node c' pk' k' w)" by blast
    then show ?thesis
      by (auto simp add: v Idx san_node_JArr sanitize_list_map i)
  qed
qed

lemma lookup_path_append:
  "lookup_path v (p @ q) = (case lookup_path v p of None \<Rightarrow> None | Some w \<Rightarrow> lookup_path w q)"
proof (induction v p rule: lookup_path.induct)
  case (1 v)
  then show ?case by simp
next
  case (2 kvs k p)
  then show ?case by (simp split: option.splits)
next
  case (3 xs i p)
  then show ?case by simp
qed simp_all

lemma wf_lookup_path: "wf_json v \<Longrightarrow> lookup_path v p = Some w \<Longrightarrow> wf_json w"
proof (induction v p rule: lookup_path.induct)
  case (2 kvs k p)
  then show ?case by (force split: option.splits dest: map_of_SomeD)
qed (auto split: if_splits)

text \<open>
  Claim C2. Sanitizing is idempotent: on every document (a dict or a list, nested to any
  depth, under any parent key) sanitizing the sanitized result gives the sanitized result
  again. Both entry points are covered, \<open>sanitize_dict\<close> and \<open>sanitize_list\<close>.
\<close>

theorem sanitize_idempotent:
  "(wf_json (JObj d) \<longrightarrow> sanitize_dict (sanitize_dict d pk) pk = sanitize_dict d pk) \<and>
   (wf_json (JArr xs) \<longrightarrow> sanitize_list pk (sanitize_list pk xs) = sanitize_list pk xs)"
  using san_node_idem[of "JObj d" True pk pk] san_node_idem[of "JArr xs" False pk pk]
  by (simp add: san_node_JObj san_node_JArr)

theorem sanitize_idempotent_witness:
  "wf_json (JObj [(''name'', JStr ''ks1''), (''apiKey'', JStr ''abc123''),
                  (''container'', JObj [(''name'', JStr ''kr-demos'')])])
   \<and> sanitize_dict (sanitize_dict [(''name'', JStr ''ks1''), (''apiKey'', JStr ''abc123''),
                  (''container'', JObj [(''name'', JStr ''kr-demos'')])] []) []
     = sanitize_dict [(''name'', JStr ''ks1''), (''apiKey'', JStr ''abc123''),
                  (''container'', JObj [(''name'', JStr ''kr-demos'')])] []
   \<and> wf_json (JArr [JStr ''https://svc.search.windows.net'', JObj [(''token'', JStr ''t'')]])
   \<and> sanitize_list [] (sanitize_list [] [JStr ''https://svc.search.windows.net'', JObj [(''token'', JStr ''t'')]])
     = sanitize_list [] [JStr ''https://svc.search.windows.net'', JObj [(''token'', JStr ''t'')]]"
proof -
  have h1: "wf_json (JObj [(''name'', JStr ''ks1''), (''apiKey'', JStr ''abc123''),
                  (''container'', JObj [(''name'', JStr ''kr-demos'')])])"
    by simp
  have h2: "wf_json (JArr [JStr ''https://svc.search.windows.net'', JObj [(''token'', JStr ''t'')]])"
    by simp
  show ?thesis
    using h1 h2 sanitize_idempotent[of "[(''name'', JStr ''ks1''), (''apiKey'', JStr ''abc123''),
                  (''container'', JObj [(''name'', JStr ''kr-demos'')])]" "[]"
        "[JStr ''https://svc.search.windows.net'', JObj [(''token'', JStr ''t'')]]"]
    by blast
qed

text \<open>
  Claim C5, as stated, fails: \<open>sanitize_dict\<close> copies every key into its result and has
  no branch that skips one. A document with both protocol metadata keys keeps both.
\<close>

theorem sanitize_drops_metadata_keys_counterexample:
  "map fst (sanitize_dict
     [(''@odata.context'', JStr ''https://svc.search.windows.net/$metadata#knowledgesources/$entity''),
      (''@odata.etag'', JStr ''0x8DE4C1''),
      (''name'', JStr ''ks1'')] [])
   = [''@odata.context'', ''@odata.etag'', ''name'']"
  by (simp add: sanitize_dict_def)

text \<open>
  Claim C5, amended. The Sanitizer keeps every key at every nesting level, the two protocol
  metadata keys included: where the input has an object, the sanitized output has an
  object with the same keys in the same order.
\<close>

theorem sanitize_keeps_keys:
  assumes "wf_json (JObj d)" and "lookup_path (JObj d) p = Some (JObj kvs)"
  shows "\<exists>kvs'. lookup_path (JObj (sanitize_dict d pk)) p = Some (JObj kvs')
           \<and> map fst kvs' = map fst kvs"
proof -
  from lookup_san_node[OF assms, of True pk pk] obtain c' pk' k' where
    l: "lookup_path (JObj (sanitize_dict d pk)) p = Some (san_node c' pk' k' (JObj kvs))"
    by (auto simp add: san_node_JObj)
  have "distinct (map fst kvs)" using wf_lookup_path[OF assms] by simp
  then show ?thesis using l by (simp add: san_node_JObj sanitize_dict_keys)
qed

theorem sanitize_keeps_keys_witness:
  "wf_json (JObj [(''@odata.etag'', JStr ''0x8DE4C1''), (''p'', JObj [(''@odata.context'', JStr ''c'')])])
   \<and> lookup_path (JObj [(''@odata.etag'', JStr ''0x8DE4C1''), (''p'', JObj [(''@odata.context'', JStr ''c'')])])
        [Key ''p''] = Some (JObj [(''@odata.context'', JStr ''c'')])
   \<and> (\<exists>kvs'. lookup_path (JObj (sanitize_dict [(''@odata.etag'', JStr ''0x8DE4C1''),
           (''p'', JObj [(''@odata.context'', JStr ''c'')])] [])) [Key ''p''] = Some (JObj kvs')
         \<and> map fst kvs' = [''@odata.context''])"
proof -
  have h1: "wf_json (JObj [(''@odata.etag'', JStr ''0x8DE4C1''), (''p'', JObj [(''@odata.context'', JStr ''c'')])])"
    by simp
  have h2: "lookup_path (JObj [(''@odata.etag'', JStr ''0x8DE4C1''), (''p'', JObj [(''@odata.context'', JStr ''c'')])])
        [Key ''p''] = Some (JObj [(''@odata.context'', JStr ''c'')])"
    by simp
  show ?thesis using h1 h2 sanitize_keeps_keys[OF h1 h2, of "[]"] by simp
qed

subsection \<open>The key test\<close>

lemma lower_char_separator:
  "lower_char c = CHR ''-'' \<longleftrightarrow> c = CHR ''-''"
  "lower_char c = CHR ''_'' \<longleftrightarrow> c = CHR ''_''"
  by (auto simp add: lower_char_def split: if_splits)

lemma key_lower_ignoring:
  "remove_char (CHR ''_'') (remove_char (CHR ''-'') (lower key)) = ignoring_case_and_separators key"
  by (induction key)
    (simp_all add: remove_char_def lower_def ignoring_case_and_separators_def is_separator_def
      lower_char_separator)

lemma sensitive_names_ignoring:
  "map (remove_char (CHR ''_'')) SENSITIVE_KEYS = map ignoring_case_and_separators SENSITIVE_KEYS"
  by (simp add: SENSITIVE_KEYS_def remove_char_def ignoring_case_and_separators_def
      is_separator_def lower_char_def)

lemma should_redact_key_spec: "should_redact_key key \<longleftrightarrow> spec_secret_key key"
  by (simp add: should_redact_key_def key_lower_ignoring sensitive_names_ignoring
      spec_secret_key_def list_ex_iff image_iff)

lemma secret_key_examples:
  "should_redact_key ''api-key''" "should_redact_key ''API_KEY''" "should_redact_key ''apiKey''"
  "should_redact_key ''Connection-String''" "should_redact_key ''connectionString''"
  "should_redact_key ''secret''" "should_redact_key ''Password''" "should_redact_key ''token''"
  "should_redact_key ''access_key''" "should_redact_key ''Primary-Key''"
  "should_redact_key ''secondaryKey''" "should_redact_key ''key''"
  "\<not> should_redact_key ''keys''" "\<not> should_redact_key ''api.key''"
  "\<not> should_redact_key ''name''" "\<not> should_redact_key ''apiKeyName''"
  by (simp_all add: should_redact_key_def lower_def lower_char_def remove_char_def
      SENSITIVE_KEYS_def)

text \<open>
  Claim C8. In a document, at any nesting level, a pair whose key, compared without regard
  to case and to the separators \<^verbatim>\<open>-\<close> and \<^verbatim>\<open>_\<close>, equals one of the secret-indicating names
  (\<open>spec_secret_key\<close>) and whose value is a non-empty string other than \<^verbatim>\<open>null\<close> gets the
  value \<^verbatim>\<open><REDACTED>\<close>; the code's own test \<open>should_redact_key\<close> is that comparison; and
  \<^verbatim>\<open>{"apiKey": "abc123"}\<close> sanitizes to \<^verbatim>\<open>{"apiKey": "<REDACTED>"}\<close>.
\<close>

theorem sanitize_redacts_secret_keys:
  "(wf_json (JObj d) \<and> lookup_path (JObj d) p = Some (JObj kvs) \<and> (key, JStr s) \<in> set kvs
      \<and> spec_secret_key key \<and> s \<noteq> [] \<and> s \<noteq> ''null''
    \<longrightarrow> lookup_path (JObj (sanitize_dict d pk)) (p @ [Key key]) = Some (JStr REDACTED_PLACEHOLDER))
   \<and> should_redact_key key = spec_secret_key key
   \<and> sanitize_dict [(''apiKey'', JStr ''abc123'')] [] = [(''apiKey'', JStr ''<REDACTED>'')]"
proof (intro conjI impI)
  assume a: "wf_json (JObj d) \<and> lookup_path (JObj d) p = Some (JObj kvs) \<and> (key, JStr s) \<in> set kvs
      \<and> spec_secret_key key \<and> s \<noteq> [] \<and> s \<noteq> ''null''"
  then have wf: "wf_json (JObj d)" and lp: "lookup_path (JObj d) p = Some (JObj kvs)" by simp_all
  have sk: "should_redact_key key" using a by (simp add: should_redact_key_spec)
  from lookup_san_node[OF wf lp, of True pk pk] obtain c' pk' k' where
    l: "lookup_path (JObj (sanitize_dict d pk)) p = Some (JObj (sanitize_dict kvs k'))"
    by (auto simp add: san_node_JObj)
  have d: "distinct (map fst kvs)" using wf_lookup_path[OF wf lp] by simp
  then have m: "map_of kvs key = Some (JStr s)" using a by simp
  have nl: "\<not> is_legacy_container k' key (JStr s)"
    using sk container_key_not_secret[of key] by (auto simp add: is_legacy_container_def Let_def)
  have "san_node True k' key (JStr s) = JStr REDACTED_PLACEHOLDER"
    using a sk nl by (simp add: san_node_def sanitize_value_def)
  then show "lookup_path (JObj (sanitize_dict d pk)) (p @ [Key key]) = Some (JStr REDACTED_PLACEHOLDER)"
    by (simp add: lookup_path_append l sanitize_dict_map[OF d] map_of_map_keyed m)
next
  show "should_redact_key key = spec_secret_key key" by (rule should_redact_key_spec)
next
  show "sanitize_dict [(''apiKey'', JStr ''abc123'')] [] = [(''apiKey'', JStr ''<REDACTED>'')]"
    by (simp add: sanitize_dict_def sanitize_value_def should_redact_key_def lower_def
        lower_char_def remove_char_def SENSITIVE_KEYS_def is_legacy_container_def
        REDACTED_PLACEHOLDER_def)
qed

theorem sanitize_redacts_secret_keys_witness:
  "wf_json (JObj [(''models'', JArr [JObj [(''Primary-Key'', JStr ''abc123'')]])])
   \<and> lookup_path (JObj [(''models'', JArr [JObj [(''Primary-Key'', JStr ''abc123'')]])]) [Key ''models'', Idx 0]
       = Some (JObj [(''Primary-Key'', JStr ''abc123'')])
   \<and> spec_secret_key ''Primary-Key''
   \<and> lookup_path (JObj (sanitize_dict [(''models'', JArr [JObj [(''Primary-Key'', JStr ''abc123'')]])] []))
        [Key ''models'', Idx 0, Key ''Primary-Key''] = Some (JStr REDACTED_PLACEHOLDER)"
proof -
  have h1: "wf_json (JObj [(''models'', JArr [JObj [(''Primary-Key'', JStr ''abc123'')]])])"
    by simp
  have h2: "lookup_path (JObj [(''models'', JArr [JObj [(''Primary-Key'', JStr ''abc123'')]])]) [Key ''models'', Idx 0]
       = Some (JObj [(''Primary-Key'', JStr ''abc123'')])"
    by simp
  have h3: "spec_secret_key ''Primary-Key''"
    by (simp add: spec_secret_key_def ignoring_case_and_separators_def is_separator_def
        lower_char_def SENSITIVE_KEYS_def)
  have h4: "(''Primary-Key'', JStr ''abc123'') \<in> set [(''Primary-Key'', JStr ''abc123'')]" by simp
  have h5: "''abc123'' \<noteq> [] \<and> ''abc123'' \<noteq> ''null''" by simp
  from sanitize_redacts_secret_keys[of "[(''models'', JArr [JObj [(''Primary-Key'', JStr ''abc123'')]])]"
      "[Key ''models'', Idx 0]" "[(''Primary-Key'', JStr ''abc123'')]" "''Primary-Key''" "''abc123''" "[]"]
  have "lookup_path (JObj (sanitize_dict [(''models'', JArr [JObj [(''Primary-Key'', JStr ''abc123'')]])] []))
        ([Key ''models'', Idx 0] @ [Key ''Primary-Key'']) = Some (JStr REDACTED_PLACEHOLDER)"
    using h1 h2 h3 h4 h5 by blast
  then show ?thesis using h1 h2 h3 by simp
qed

section \<open>Properties of the Dependency Resolver\<close>

lemma bind_err_simps [simp]:
  "bind_err (Inl e) f = Inl e"
  "bind_err (Inr x) f = f x"
  by (simp_all add: bind_err_def)





lemma extract_created:
  assumes k: "map_of kvs ''kind'' = Some (JStr kind)"
    and m: "(kind, pk) \<in> set KIND_BLOCKS"
  shows "map_sum id fst (extract_resources_from_ks (JObj kvs)) = created_resources (JObj kvs) pk"
proof -
  from m consider "kind = ''azureBlob''" "pk = ''azureBlobParameters''"
    | "kind = ''indexedOneLake''" "pk = ''indexedOneLakeParameters''"
    | "kind = ''indexedSharePoint''" "pk = ''indexedSharePointParameters''"
    by (auto simp add: KIND_BLOCKS_def)
  then show ?thesis
  proof cases
    case 1
    then show ?thesis
      by (cases "created_resources (JObj kvs) pk") (simp_all add: extract_resources_from_ks_def k)
  next
    case 2
    then show ?thesis
      by (cases "created_resources (JObj kvs) pk") (simp_all add: extract_resources_from_ks_def k)
  next
    case 3
    then show ?thesis
      by (cases "created_resources (JObj kvs) pk") (simp_all add: extract_resources_from_ks_def k)
  qed
qed




lemma created_resources_raises:
  assumes "\<not> readable_block (JObj kvs) pk"
  shows "created_resources (JObj kvs) pk = Inl AttributeError"
proof (cases "map_of kvs pk")
  case None
  then show ?thesis using assms by (simp add: readable_block_def)
next
  case (Some params)
  show ?thesis
  proof (cases params)
    case (JObj ps)
    then obtain cr where c: "map_of ps ''createdResources'' = Some cr" and ne: "ps \<noteq> []"
      and nd: "\<forall>x. cr \<noteq> JObj x"
      using assms Some by (auto simp add: readable_block_def split: option.splits json.splits)
    then show ?thesis using Some JObj
      by (cases cr) (simp_all add: created_resources_def py_get_def)
  qed (use assms Some in \<open>auto simp add: created_resources_def readable_block_def\<close>)
qed

lemma extract_resources_raises:
  "(kind, pk) \<in> set KIND_BLOCKS \<Longrightarrow> map_of kvs ''kind'' = Some (JStr kind) \<Longrightarrow>
     \<not> readable_block (JObj kvs) pk \<Longrightarrow> extract_resources_from_ks (JObj kvs) = Inl AttributeError"
  "map_of kvs ''kind'' = Some (JStr ''searchIndex'') \<Longrightarrow>
     \<not> readable_params (JObj kvs) ''searchIndexParameters'' \<Longrightarrow>
     extract_resources_from_ks (JObj kvs) = Inl AttributeError"
  "map_of kvs ''kind'' = Some uk \<Longrightarrow> \<not> hashable uk \<Longrightarrow>
     extract_resources_from_ks (JObj kvs) = Inl TypeError"
proof -
  assume m: "(kind, pk) \<in> set KIND_BLOCKS" and k: "map_of kvs ''kind'' = Some (JStr kind)"
    and r: "\<not> readable_block (JObj kvs) pk"
  have "map_sum id fst (extract_resources_from_ks (JObj kvs)) = Inl AttributeError"
    by (simp only: extract_created[OF k m] created_resources_raises[OF r])
  then show "extract_resources_from_ks (JObj kvs) = Inl AttributeError"
    by (cases "extract_resources_from_ks (JObj kvs)") simp_all
next
  assume k: "map_of kvs ''kind'' = Some (JStr ''searchIndex'')"
    and r: "\<not> readable_params (JObj kvs) ''searchIndexParameters''"
  then obtain params where p: "map_of kvs ''searchIndexParameters'' = Some params"
    by (auto simp add: readable_params_def split: option.splits)
  show "extract_resources_from_ks (JObj kvs) = Inl AttributeError"
    using r p by (cases params)
      (simp_all add: extract_resources_from_ks_def k readable_params_def py_get_def)
next
  assume k: "map_of kvs ''kind'' = Some uk" and h: "\<not> hashable uk"
  then show "extract_resources_from_ks (JObj kvs) = Inl TypeError"
    by (cases uk) (simp_all add: extract_resources_from_ks_def)
qed




section \<open>Properties of deployment\<close>

text \<open>
  Claim C6, as stated, fails: the two deploy functions accept the status codes 200, 201
  and 204 only. A response \<^verbatim>\<open>202 Accepted\<close> is in the 2xx range and is reported as a
  failure.
\<close>

theorem deploy_accepts_202_counterexample:
  "fst (deploy_knowledge_source (\<lambda>r. Response 202 ''{}'' (Some (JObj [])))
          ''https://svc.search.windows.net'' ''k'' ''ks1'' (JObj [(''name'', JStr ''ks1'')])) = False
   \<and> fst (deploy_knowledge_base (\<lambda>r. Response 202 ''{}'' (Some (JObj [])))
          ''https://svc.search.windows.net'' ''k'' ''kb1'' (JObj [(''name'', JStr ''kb1'')])) = False"
  by (simp add: deploy_knowledge_source_def deploy_knowledge_base_def report_response_def)

lemma report_response_status:
  "report_response (Response status text parsed) =
     (if status = 200 \<or> status = 201 \<or> status = 204 then (True, [])
      else (False, [LogHttpStatus status,
                    (case parsed of Some detail \<Rightarrow> LogErrorDetail detail
                                  | None \<Rightarrow> LogResponseText text)]))"
  by (simp add: report_response_def)

text \<open>
  Claim C6, amended. When a response arrives, a deploy call reports success exactly when
  its status code is 200, 201 or 204; for every other status code it reports failure and
  logs the status code followed by the response body (the parsed JSON body, or the raw
  text when the body is not JSON).
\<close>

theorem deploy_success_iff_200_201_204:
  "(put \<lparr>put_url = search_endpoint @ ''/knowledgesources/'' @ name @ ''?api-version='' @ API_VERSION,
         put_api_key = search_key, put_json = doc\<rparr> = Response status text parsed
    \<longrightarrow> (fst (deploy_knowledge_source put search_endpoint search_key name doc)
           \<longleftrightarrow> status = 200 \<or> status = 201 \<or> status = 204)
        \<and> (\<not> (status = 200 \<or> status = 201 \<or> status = 204)
           \<longrightarrow> snd (deploy_knowledge_source put search_endpoint search_key name doc) =
                 [LogHttpStatus status,
                  (case parsed of Some detail \<Rightarrow> LogErrorDetail detail
                                | None \<Rightarrow> LogResponseText text)]))
   \<and> (put \<lparr>put_url = search_endpoint @ ''/knowledgebases/'' @ name @ ''?api-version='' @ API_VERSION,
         put_api_key = search_key, put_json = doc\<rparr> = Response status text parsed
    \<longrightarrow> (fst (deploy_knowledge_base put search_endpoint search_key name doc)
           \<longleftrightarrow> status = 200 \<or> status = 201 \<or> status = 204)
        \<and> (\<not> (status = 200 \<or> status = 201 \<or> status = 204)
           \<longrightarrow> snd (deploy_knowledge_base put search_endpoint search_key name doc) =
                 [LogHttpStatus status,
                  (case parsed of Some detail \<Rightarrow> LogErrorDetail detail
                                | None \<Rightarrow> LogResponseText text)]))"
  by (simp add: deploy_knowledge_source_def deploy_knowledge_base_def report_response_status)

theorem deploy_success_iff_200_201_204_witness:
  "fst (deploy_knowledge_source (\<lambda>r. Response 201 [] None) ''e'' ''k'' ''ks1'' JNull)
   \<and> \<not> fst (deploy_knowledge_source (\<lambda>r. Response 400 ''bad request'' None) ''e'' ''k'' ''ks1'' JNull)
   \<and> snd (deploy_knowledge_source (\<lambda>r. Response 400 ''bad request'' None) ''e'' ''k'' ''ks1'' JNull)
       = [LogHttpStatus 400, LogResponseText ''bad request'']
   \<and> fst (deploy_knowledge_base (\<lambda>r. Response 204 [] None) ''e'' ''k'' ''kb1'' JNull)
   \<and> \<not> fst (deploy_knowledge_base (\<lambda>r. Response 404 [] (Some (JObj [(''error'', JStr ''x'')]))) ''e'' ''k'' ''kb1'' JNull)
   \<and> snd (deploy_knowledge_base (\<lambda>r. Response 404 [] (Some (JObj [(''error'', JStr ''x'')]))) ''e'' ''k'' ''kb1'' JNull)
       = [LogHttpStatus 404, LogErrorDetail (JObj [(''error'', JStr ''x'')])]"
  using deploy_success_iff_200_201_204[of "\<lambda>r. Response 201 [] None" "''e''" "''ks1''" "''k''" JNull 201 "[]" None]
    deploy_success_iff_200_201_204[of "\<lambda>r. Response 400 ''bad request'' None" "''e''" "''ks1''" "''k''" JNull 400 "''bad request''" None]
    deploy_success_iff_200_201_204[of "\<lambda>r. Response 204 [] None" "''e''" "''kb1''" "''k''" JNull 204 "[]" None]
    deploy_success_iff_200_201_204[of "\<lambda>r. Response 404 [] (Some (JObj [(''error'', JStr ''x'')]))" "''e''" "''kb1''" "''k''" JNull 404 "[]" "Some (JObj [(''error'', JStr ''x'')])"]
  by simp

section \<open>Properties of the Restorer\<close>

lemma bind_err_Inr:
  "bind_err m f = Inr y \<longleftrightarrow> (\<exists>x. m = Inr x \<and> f x = Inr y)"
  by (cases m) simp_all

lemma placeholder_subst_list_refl:
  "list_all2 (\<lambda>kv kv'. placeholder_subst (snd kv) (snd kv')) kvs kvs"
  by (simp add: list_all2_same placeholder_subst.same)

lemma placeholder_subst_trans:
  "placeholder_subst a b \<Longrightarrow> placeholder_subst b c \<Longrightarrow> placeholder_subst a c"
proof (induction a b arbitrary: c rule: placeholder_subst.induct)
  case (same v)
  then show ?case by simp
next
  case (token s v')
  then show ?case by (simp add: placeholder_subst.token)
next
  case (obj kvs kvs')
  have l: "list_all2 (\<lambda>kv kv'. placeholder_subst (snd kv) (snd kv')) kvs kvs'"
    using obj(2) by (rule list_all2_mono) simp
  from obj.prems show ?case
  proof (cases rule: placeholder_subst.cases)
    case same
    then show ?thesis using obj(1) l by (simp add: placeholder_subst.obj)
  next
    case (obj kvs'')
    have "list_all2 (\<lambda>kv kv'. placeholder_subst (snd kv) (snd kv')) kvs kvs''"
      using \<open>list_all2 (\<lambda>kv kv'. placeholder_subst (snd kv) (snd kv') \<and>
          (\<forall>x. placeholder_subst (snd kv') x \<longrightarrow> placeholder_subst (snd kv) x)) kvs kvs'\<close> obj(3)
      by (auto simp add: list_all2_conv_all_nth)
    then show ?thesis using obj(1,2) \<open>map fst kvs = map fst kvs'\<close>
      by (simp add: placeholder_subst.obj)
  qed
next
  case (arr xs xs')
  have l: "list_all2 placeholder_subst xs xs'"
    using arr(1) by (rule list_all2_mono) simp
  from arr.prems show ?case
  proof (cases rule: placeholder_subst.cases)
    case same
    then show ?thesis using l by (simp add: placeholder_subst.arr)
  next
    case (arr xs'')
    have "list_all2 placeholder_subst xs xs''"
      using \<open>list_all2 (\<lambda>x1 x2. placeholder_subst x1 x2 \<and>
          (\<forall>x. placeholder_subst x2 x \<longrightarrow> placeholder_subst x1 x)) xs xs'\<close> arr(2)
      by (auto simp add: list_all2_conv_all_nth)
    then show ?thesis using arr(1) by (simp add: placeholder_subst.arr)
  qed
qed

lemma update_keys_present:
  "map_of kvs k = Some v \<Longrightarrow> map fst (AList.update k v' kvs) = map fst kvs"
  by (induction kvs) (auto split: if_splits)

lemma placeholder_subst_update_list:
  assumes "map_of kvs k = Some v" and "placeholder_subst v v'"
  shows "list_all2 (\<lambda>kv kv'. placeholder_subst (snd kv) (snd kv')) kvs (AList.update k v' kvs)"
  using assms(1)
proof (induction kvs)
  case Nil
  then show ?case by simp
next
  case (Cons kv kvs)
  obtain a b where kv: "kv = (a, b)" by (cases kv)
  show ?case
  proof (cases "a = k")
    case True
    then have "b = v" using Cons.prems kv by simp
    then show ?thesis using True kv assms(2)
      by (simp add: placeholder_subst_list_refl)
  next
    case False
    then have "map_of kvs k = Some v" using Cons.prems kv by simp
    then show ?thesis using False kv Cons.IH
      by (simp add: placeholder_subst.same)
  qed
qed

lemma placeholder_subst_update:
  assumes "map_of kvs k = Some v" and "placeholder_subst v v'"
  shows "placeholder_subst (JObj kvs) (JObj (AList.update k v' kvs))"
  by (rule placeholder_subst.obj)
    (simp_all add: update_keys_present[OF assms(1)] placeholder_subst_update_list[OF assms])

lemma in_truthy_block_subst:
  assumes "in_truthy_block k body d = Inr d'"
    and "\<And>v v'. truthy v \<Longrightarrow> body v = Inr v' \<Longrightarrow> placeholder_subst v v'"
  shows "placeholder_subst d d'"
proof (cases d)
  case (JObj kvs)
  show ?thesis
  proof (cases "map_of kvs k")
    case None
    then have "k \<notin> fst ` set kvs" by (simp add: map_of_eq_None_iff)
    then show ?thesis using assms(1) JObj
      by (simp add: in_truthy_block_def placeholder_subst.same)
  next
    case (Some v)
    then have "k \<in> fst ` set kvs" by (metis map_of_eq_None_iff option.distinct(1))
    then show ?thesis using assms Some JObj
      by (auto simp add: in_truthy_block_def bind_err_Inr placeholder_subst.same
          placeholder_subst_update split: if_splits)
  qed
qed (use assms(1) in \<open>auto simp add: in_truthy_block_def bind_err_Inr placeholder_subst.same
      split: if_splits\<close>)

lemma in_block_subst:
  assumes "in_block k body d = Inr d'"
    and "\<And>v v'. body v = Inr v' \<Longrightarrow> placeholder_subst v v'"
  shows "placeholder_subst d d'"
proof (cases d)
  case (JObj kvs)
  show ?thesis
  proof (cases "map_of kvs k")
    case None
    then have "k \<notin> fst ` set kvs" by (simp add: map_of_eq_None_iff)
    then show ?thesis using assms(1) JObj
      by (simp add: in_block_def placeholder_subst.same)
  next
    case (Some v)
    then have "k \<in> fst ` set kvs" by (metis map_of_eq_None_iff option.distinct(1))
    then show ?thesis using assms Some JObj
      by (auto simp add: in_block_def bind_err_Inr placeholder_subst.same
          placeholder_subst_update split: if_splits)
  qed
qed (use assms(1) in \<open>auto simp add: in_block_def bind_err_Inr placeholder_subst.same
      split: if_splits\<close>)

lemma subst_placeholder_subst:
  assumes "subst_placeholder k t live d = Inr d'" and "is_placeholder t"
  shows "placeholder_subst d d'"
proof (cases d)
  case (JObj kvs)
  show ?thesis
  proof (cases "map_of kvs k = Some (JStr t)")
    case True
    then show ?thesis using assms JObj
      by (auto simp add: subst_placeholder_def py_get_def
          intro!: placeholder_subst_update placeholder_subst.token)
  next
    case False
    then show ?thesis using assms JObj
      by (auto simp add: subst_placeholder_def py_get_def placeholder_subst.same
          split: option.splits if_splits)
  qed
qed (use assms(1) in \<open>auto simp add: subst_placeholder_def py_get_def\<close>)

lemma is_placeholder_literals:
  "is_placeholder ''<REDACTED>''"
  "is_placeholder ''<AZURE_ENDPOINT_PLACEHOLDER>''"
  "is_placeholder ''<BLOB_CONTAINER_PLACEHOLDER>''"
  by (simp_all add: is_placeholder_def REDACTED_PLACEHOLDER_def URL_PLACEHOLDER_def
      CONTAINER_PLACEHOLDER_def)

lemma replace_aoai_params_subst:
  assumes "replace_aoai_params oe ok a = Inr a'"
  shows "placeholder_subst a a'"
proof -
  from assms obtain a1 where
    1: "subst_placeholder ''resourceUri'' ''<AZURE_ENDPOINT_PLACEHOLDER>'' (JStr oe) a = Inr a1" and
    2: "subst_placeholder ''apiKey'' ''<REDACTED>'' (JStr ok) a1 = Inr a'"
    unfolding replace_aoai_params_def bind_err_Inr by auto
  show ?thesis
    by (rule placeholder_subst_trans[OF subst_placeholder_subst[OF 1 is_placeholder_literals(2)]
          subst_placeholder_subst[OF 2 is_placeholder_literals(1)]])
qed

lemma replace_in_model_subst:
  assumes "replace_in_model mk oe ok ip = Inr ip'"
  shows "placeholder_subst ip ip'"
  using assms unfolding replace_in_model_def
  by (rule in_truthy_block_subst) (erule in_truthy_block_subst, erule replace_aoai_params_subst)

lemma replace_indexed_params_subst:
  assumes "replace_indexed_params oe ok ps = Inr ps'"
  shows "placeholder_subst ps ps'"
  using assms unfolding replace_indexed_params_def
  by (rule in_truthy_block_subst) (erule replace_in_model_subst)

lemma lookup_path_Key:
  "lookup_path d (Key k # p) =
     (case lookup_path d [Key k] of None \<Rightarrow> None | Some v \<Rightarrow> lookup_path v p)"
  by (cases d) (simp_all split: option.splits)

lemma value_at_Key:
  "lookup_path d [Key k] = Some v \<Longrightarrow> value_at d (Key k # p) = value_at v p"
  by (simp add: value_at_def lookup_path_Key[of d k p])

lemma value_at_Nil [simp]: "value_at v [] = v"
  by (simp add: value_at_def)

text \<open>A step that works on the field \<open>k\<close> leaves the other fields as they are.\<close>

lemma py_setitem_other:
  "py_setitem d k v = Inr d' \<Longrightarrow> k' \<noteq> k \<Longrightarrow> lookup_path d' [Key k'] = lookup_path d [Key k']"
  by (cases d) (auto simp add: update_conv')

lemma py_setitem_same:
  "py_setitem d k v = Inr d' \<Longrightarrow> lookup_path d' [Key k] = Some v"
  by (cases d) (auto simp add: update_conv')

lemma py_pop_other:
  "py_pop d k = Inr d' \<Longrightarrow> k' \<noteq> k \<Longrightarrow> lookup_path d' [Key k'] = lookup_path d [Key k']"
  by (cases d) (auto simp add: delete_conv')

lemma pop_odata_other:
  assumes "pop_odata d = Inr d'" and "k' \<noteq> ''@odata.context''" and "k' \<noteq> ''@odata.etag''"
  shows "lookup_path d' [Key k'] = lookup_path d [Key k']"
proof -
  from assms(1) obtain d1 where 1: "py_pop d ''@odata.context'' = Inr d1"
    and 2: "py_pop d1 ''@odata.etag'' = Inr d'"
    unfolding pop_odata_def bind_err_Inr by auto
  show ?thesis
    using py_pop_other[OF 1 assms(2)] py_pop_other[OF 2 assms(3)] by simp
qed

lemma in_truthy_block_other:
  assumes "in_truthy_block k body d = Inr d'" and "k' \<noteq> k"
  shows "lookup_path d' [Key k'] = lookup_path d [Key k']"
  using assms
  by (auto simp add: in_truthy_block_def bind_err_Inr dest: py_setitem_other split: if_splits)

lemma subst_placeholder_other:
  assumes "subst_placeholder k t live d = Inr d'" and "k' \<noteq> k"
  shows "lookup_path d' [Key k'] = lookup_path d [Key k']"
  using assms
  by (auto simp add: subst_placeholder_def bind_err_Inr dest: py_setitem_other split: if_splits)

lemma py_in_getitem:
  "py_in k d = Inr True \<Longrightarrow> py_getitem d k = Inr v \<Longrightarrow> lookup_path d [Key k] = Some v"
  by (cases d) (auto split: option.splits)

lemma ai_services_availableD:
  "ai_services_available aie aik \<Longrightarrow> \<exists>e k. aie = Some e \<and> aik = Some k \<and> e \<noteq> [] \<and> k \<noteq> []"
  by (auto simp add: ai_services_available_def split: option.splits)

lemma replace_ai_services_subst:
  assumes r: "replace_ai_services aie aik ip = Inr ip'"
    and a: "ai_services_available aie aik \<or> \<not> truthy (value_at ip [Key ''aiServices''])"
  shows "placeholder_subst ip ip'"
proof (cases "py_in ''aiServices'' ip")
  case (Inl e)
  then show ?thesis using r by (simp add: replace_ai_services_def)
next
  case (Inr present)
  show ?thesis
  proof (cases present)
    case False
    then show ?thesis using r Inr
      by (simp add: replace_ai_services_def placeholder_subst.same)
  next
    case True
    show ?thesis
    proof (cases "py_getitem ip ''aiServices''")
      case (Inl e)
      then show ?thesis using r Inr True by (simp add: replace_ai_services_def)
    next
      case g: (Inr v)
      have l: "lookup_path ip [Key ''aiServices''] = Some v"
        using Inr True g by (simp add: py_in_getitem)
      then have va: "value_at ip [Key ''aiServices''] = v" by (simp add: value_at_def)
      show ?thesis
      proof (cases "truthy v")
        case False
        then show ?thesis using r Inr True g
          by (simp add: replace_ai_services_def placeholder_subst.same)
      next
        case t: True
        then have "ai_services_available aie aik" using a va by simp
        then obtain e k where av: "aie = Some e" "aik = Some k" "e \<noteq> []" "k \<noteq> []"
          using ai_services_availableD by blast
        from r Inr True g t av obtain s1 s2 where
          1: "subst_placeholder ''uri'' ''<AZURE_ENDPOINT_PLACEHOLDER>'' (JStr e) v = Inr s1" and
          2: "subst_placeholder ''apiKey'' ''<REDACTED>'' (JStr k) s1 = Inr s2" and
          3: "py_setitem ip ''aiServices'' s2 = Inr ip'"
          by (auto simp add: replace_ai_services_def bind_err_Inr)
        have rel: "placeholder_subst v s2"
          by (rule placeholder_subst_trans[OF subst_placeholder_subst[OF 1 is_placeholder_literals(2)]
                subst_placeholder_subst[OF 2 is_placeholder_literals(1)]])
        from 3 l obtain kvs where d: "ip = JObj kvs" and m: "map_of kvs ''aiServices'' = Some v"
          by (cases ip) (auto split: option.splits)
        show ?thesis using 3 d placeholder_subst_update[OF m rel] by simp
      qed
    qed
  qed
qed

lemma replace_in_model_other:
  assumes "replace_in_model mk oe ok ip = Inr ip'" and "k' \<noteq> mk"
  shows "lookup_path ip' [Key k'] = lookup_path ip [Key k']"
  using assms unfolding replace_in_model_def by (rule in_truthy_block_other)

lemma map_err_subst:
  assumes "map_err f xs = Inr ys" and "\<And>x y. f x = Inr y \<Longrightarrow> placeholder_subst x y"
  shows "list_all2 placeholder_subst xs ys"
  using assms(1)
proof (induction xs arbitrary: ys)
  case Nil
  then show ?case by simp
next
  case (Cons x xs)
  then show ?case by (auto simp add: bind_err_Inr assms(2))
qed

lemma replace_in_models_subst:
  assumes "replace_in_models oe ok ms = Inr ms'"
  shows "placeholder_subst ms ms'"
proof -
  let ?f = "in_truthy_block ''azureOpenAIParameters'' (replace_aoai_params oe ok)"
  from assms obtain items items' where
    1: "py_iter ms = Inr items" and 2: "map_err ?f items = Inr items'" and
    3: "ms' = (case ms of JArr xs \<Rightarrow> JArr items' | _ \<Rightarrow> ms)"
    unfolding replace_in_models_def bind_err_Inr by auto
  show ?thesis
  proof (cases ms)
    case (JArr xs)
    then have "items = xs" using 1 by simp
    then have m: "map_err ?f xs = Inr items'" using 2 by simp
    have "list_all2 placeholder_subst xs items'"
    proof (rule map_err_subst[OF m])
      fix x y assume "?f x = Inr y"
      then show "placeholder_subst x y"
        by (rule in_truthy_block_subst) (erule replace_aoai_params_subst)
    qed
    then show ?thesis using 3 JArr by (simp add: placeholder_subst.arr)
  qed (use 3 in \<open>simp_all add: placeholder_subst.same\<close>)
qed

lemma replace_kb_subst:
  assumes r: "replace_placeholders_in_knowledge_base d oe ok = Inr d'"
  shows "\<exists>d0. pop_odata d = Inr d0 \<and> placeholder_subst d0 d'"
proof -
  from r obtain d0 d1 where
    0: "pop_odata d = Inr d0" and
    1: "in_truthy_block ''models'' (replace_in_models oe ok) d0 = Inr d1" and
    2: "in_truthy_block ''inferenceParameters''
          (in_block ''azureOpenAIParameters'' (replace_aoai_params oe ok)) d1 = Inr d'"
    unfolding replace_placeholders_in_knowledge_base_def bind_err_Inr by auto
  have r1: "placeholder_subst d0 d1"
    by (rule in_truthy_block_subst[OF 1]) (erule replace_in_models_subst)
  have r2: "placeholder_subst d1 d'"
    by (rule in_truthy_block_subst[OF 2]) (erule in_block_subst, erule replace_aoai_params_subst)
  show ?thesis using 0 placeholder_subst_trans[OF r1 r2] by blast
qed

lemma lookup_Key_truthy: "lookup_path d [Key k] = Some v \<Longrightarrow> truthy d"
  by (cases d) (auto split: option.splits)

lemma lookup_Key_py_in: "lookup_path d [Key k] = Some v \<Longrightarrow> py_in k d = Inr True"
  by (cases d) (auto split: option.splits dest: map_of_SomeD intro: rev_image_eqI)

lemma lookup_Key_py_getitem: "lookup_path d [Key k] = Some v \<Longrightarrow> py_getitem d k = Inr v"
  by (cases d) (auto split: option.splits)

lemma in_truthy_block_same:
  assumes "in_truthy_block k body d = Inr d'" and "lookup_path d [Key k] = Some v" and "truthy v"
  shows "\<exists>v'. body v = Inr v' \<and> lookup_path d' [Key k] = Some v'"
  using assms lookup_Key_py_in[OF assms(2)] lookup_Key_py_getitem[OF assms(2)]
  by (auto simp add: in_truthy_block_def bind_err_Inr dest: py_setitem_same)

lemma replace_ai_services_unavailable:
  assumes r: "replace_ai_services aie aik ip = Inr ip'"
    and l: "lookup_path ip [Key ''aiServices''] = Some svc" and t: "truthy svc"
    and na: "\<not> ai_services_available aie aik"
  shows "lookup_path ip' [Key ''aiServices''] = Some JNull"
proof -
  have "py_setitem ip ''aiServices'' JNull = Inr ip'"
    using r t na lookup_Key_py_in[OF l] lookup_Key_py_getitem[OF l]
    by (auto simp add: replace_ai_services_def ai_services_available_def split: option.splits)
  then show ?thesis by (rule py_setitem_same)
qed

lemma replace_blob_ingestion_unavailable:
  assumes r: "replace_blob_ingestion oe ok aie aik ip = Inr ip'"
    and l: "lookup_path ip [Key ''aiServices''] = Some svc" and t: "truthy svc"
    and na: "\<not> ai_services_available aie aik"
  shows "lookup_path ip' [Key ''aiServices''] = Some JNull"
proof -
  from r obtain i1 i2 where
    1: "replace_in_model ''embeddingModel'' oe ok ip = Inr i1" and
    2: "replace_in_model ''chatCompletionModel'' oe ok i1 = Inr i2" and
    3: "replace_ai_services aie aik i2 = Inr ip'"
    unfolding replace_blob_ingestion_def bind_err_Inr by auto
  have "lookup_path i2 [Key ''aiServices''] = Some svc"
    using replace_in_model_other[OF 1, of "''aiServices''"]
      replace_in_model_other[OF 2, of "''aiServices''"] l by simp
  then show ?thesis using t na by (rule replace_ai_services_unavailable[OF 3])
qed

lemma replace_blob_params_keeps_ingestion:
  assumes r: "replace_blob_params oe ok scs bc aie aik bp = Inr bp'"
  shows "\<exists>b2. in_truthy_block ''ingestionParameters'' (replace_blob_ingestion oe ok aie aik) b2 = Inr bp'
           \<and> lookup_path b2 [Key ''ingestionParameters''] = lookup_path bp [Key ''ingestionParameters'']"
proof -
  from r obtain cs b1 b2 where
    0: "py_get bp ''connectionString'' = Inr cs" and
    1: "(if cs \<in> {JStr ''<REDACTED>'', JNull, JStr ''''}
         then py_setitem bp ''connectionString'' (JStr scs) else Inr bp) = Inr b1" and
    2: "subst_placeholder ''containerName'' ''<BLOB_CONTAINER_PLACEHOLDER>'' (JStr bc) b1 = Inr b2" and
    3: "in_truthy_block ''ingestionParameters'' (replace_blob_ingestion oe ok aie aik) b2 = Inr bp'"
    unfolding replace_blob_params_def bind_err_Inr by auto
  have "lookup_path b1 [Key ''ingestionParameters''] = lookup_path bp [Key ''ingestionParameters'']"
  proof (cases "cs \<in> {JStr ''<REDACTED>'', JNull, JStr ''''}")
    case True
    with 1 have "py_setitem bp ''connectionString'' (JStr scs) = Inr b1" by (simp only: if_True)
    from py_setitem_other[OF this, of "''ingestionParameters''"] show ?thesis by simp
  next
    case False
    with 1 show ?thesis by (simp only: if_False sum.inject)
  qed
  then have "lookup_path b2 [Key ''ingestionParameters''] = lookup_path bp [Key ''ingestionParameters'']"
    using subst_placeholder_other[OF 2, of "''ingestionParameters''"] by simp
  then show ?thesis using 3 by blast
qed

lemma replace_blob_params_unavailable:
  assumes r: "replace_blob_params oe ok scs bc aie aik bp = Inr bp'"
    and l: "lookup_path bp [Key ''ingestionParameters'', Key ''aiServices''] = Some svc"
    and t: "truthy svc"
    and na: "\<not> ai_services_available aie aik"
  shows "lookup_path bp' [Key ''ingestionParameters'', Key ''aiServices''] = Some JNull"
proof -
  from l obtain ip where li: "lookup_path bp [Key ''ingestionParameters''] = Some ip"
    and la: "lookup_path ip [Key ''aiServices''] = Some svc"
    by (simp add: lookup_path_Key[of bp "''ingestionParameters''" "[Key ''aiServices'']"]
        split: option.splits)
  from replace_blob_params_keeps_ingestion[OF r] li obtain b2 where
    3: "in_truthy_block ''ingestionParameters'' (replace_blob_ingestion oe ok aie aik) b2 = Inr bp'"
    and l2: "lookup_path b2 [Key ''ingestionParameters''] = Some ip" by auto
  from in_truthy_block_same[OF 3 l2 lookup_Key_truthy[OF la]] obtain ip' where
    b: "replace_blob_ingestion oe ok aie aik ip = Inr ip'"
    and l': "lookup_path bp' [Key ''ingestionParameters''] = Some ip'" by blast
  have "lookup_path ip' [Key ''aiServices''] = Some JNull"
    by (rule replace_blob_ingestion_unavailable[OF b la t na])
  then show ?thesis
    by (simp add: lookup_path_Key[of bp' "''ingestionParameters''" "[Key ''aiServices'']"] l')
qed

text \<open>
  Claim C4. When the blob ingestion parameters hold an \<^verbatim>\<open>aiServices\<close> block (a non-empty
  value, which is the code's test \<^verbatim>\<open>"aiServices" in ingest_params and
  ingest_params["aiServices"]\<close> for the block being there) and no AI-services credential
  is supplied (endpoint or key \<^verbatim>\<open>None\<close> or empty), a restore that returns yields a document
  without the block: \<^verbatim>\<open>aiServices\<close> holds \<^verbatim>\<open>None\<close> (JSON \<^verbatim>\<open>null\<close>), and nothing of the block is
  left. Assigning \<^verbatim>\<open>None\<close> is the way the code removes the block; the line is commented
  \<^verbatim>\<open>No AI Services available - remove to use free tier\<close>.
\<close>

theorem restore_nulls_ai_services:
  assumes r: "replace_placeholders_in_knowledge_source d oe ok scs bc aie aik = Inr d'"
    and l: "lookup_path d [Key ''azureBlobParameters'', Key ''ingestionParameters'',
                           Key ''aiServices''] = Some svc"
    and t: "truthy svc"
    and na: "\<not> ai_services_available aie aik"
  shows "lookup_path d' [Key ''azureBlobParameters'', Key ''ingestionParameters'',
                         Key ''aiServices''] = Some JNull
       \<and> (\<forall>k. lookup_path d' [Key ''azureBlobParameters'', Key ''ingestionParameters'',
                                Key ''aiServices'', Key k] = None)"
proof -
  from r obtain d0 d1 d2 where
    0: "pop_odata d = Inr d0" and
    1: "in_truthy_block ''azureBlobParameters'' (replace_blob_params oe ok scs bc aie aik) d0 = Inr d1" and
    2: "in_truthy_block ''indexedOneLakeParameters'' (replace_indexed_params oe ok) d1 = Inr d2" and
    3: "in_truthy_block ''indexedSharePointParameters'' (replace_indexed_params oe ok) d2 = Inr d'"
    unfolding replace_placeholders_in_knowledge_source_def bind_err_Inr by auto
  from l obtain bp where lb: "lookup_path d [Key ''azureBlobParameters''] = Some bp"
    and lr: "lookup_path bp [Key ''ingestionParameters'', Key ''aiServices''] = Some svc"
    by (simp add: lookup_path_Key[of d "''azureBlobParameters''"
          "[Key ''ingestionParameters'', Key ''aiServices'']"] split: option.splits)
  have tb: "truthy bp"
    using lr by (cases bp) (auto split: option.splits)
  have lb0: "lookup_path d0 [Key ''azureBlobParameters''] = Some bp"
    using pop_odata_other[OF 0, of "''azureBlobParameters''"] lb by simp
  from in_truthy_block_same[OF 1 lb0 tb] obtain bp' where
    b: "replace_blob_params oe ok scs bc aie aik bp = Inr bp'"
    and l1: "lookup_path d1 [Key ''azureBlobParameters''] = Some bp'" by blast
  have "lookup_path d' [Key ''azureBlobParameters''] = Some bp'"
    using in_truthy_block_other[OF 2, of "''azureBlobParameters''"]
      in_truthy_block_other[OF 3, of "''azureBlobParameters''"] l1 by simp
  moreover have "lookup_path bp' [Key ''ingestionParameters'', Key ''aiServices''] = Some JNull"
    by (rule replace_blob_params_unavailable[OF b lr t na])
  ultimately have n: "lookup_path d' [Key ''azureBlobParameters'', Key ''ingestionParameters'',
                         Key ''aiServices''] = Some JNull"
    by (simp add: lookup_path_Key[of d' "''azureBlobParameters''"
          "[Key ''ingestionParameters'', Key ''aiServices'']"])
  have "lookup_path d' ([Key ''azureBlobParameters'', Key ''ingestionParameters'',
                         Key ''aiServices''] @ [Key k]) = None" for k
    by (simp only: lookup_path_append n) simp
  then show ?thesis using n by simp
qed

lemmas restore_eval =
  replace_placeholders_in_knowledge_source_def replace_placeholders_in_knowledge_base_def
  pop_odata_def in_truthy_block_def in_block_def replace_blob_params_def
  replace_blob_ingestion_def replace_in_model_def replace_ai_services_def
  replace_aoai_params_def replace_indexed_params_def replace_in_models_def
  subst_placeholder_def py_get_def

theorem restore_nulls_ai_services_witness:
  "replace_placeholders_in_knowledge_source
     (JObj [(''name'', JStr ''ks1''),
            (''azureBlobParameters'',
               JObj [(''connectionString'', JStr ''<REDACTED>''),
                     (''ingestionParameters'',
                        JObj [(''aiServices'',
                                 JObj [(''uri'', JStr ''<AZURE_ENDPOINT_PLACEHOLDER>''),
                                       (''apiKey'', JStr ''<REDACTED>'')])])])])
     ''https://oai.openai.azure.com'' ''key1'' ''conn1'' ''docs'' (Some ''https://ais'') None
   = Inr (JObj [(''name'', JStr ''ks1''),
            (''azureBlobParameters'',
               JObj [(''connectionString'', JStr ''conn1''),
                     (''ingestionParameters'', JObj [(''aiServices'', JNull)])])])
   \<and> lookup_path
        (JObj [(''name'', JStr ''ks1''),
            (''azureBlobParameters'',
               JObj [(''connectionString'', JStr ''<REDACTED>''),
                     (''ingestionParameters'',
                        JObj [(''aiServices'',
                                 JObj [(''uri'', JStr ''<AZURE_ENDPOINT_PLACEHOLDER>''),
                                       (''apiKey'', JStr ''<REDACTED>'')])])])])
        [Key ''azureBlobParameters'', Key ''ingestionParameters'', Key ''aiServices'']
      = Some (JObj [(''uri'', JStr ''<AZURE_ENDPOINT_PLACEHOLDER>''), (''apiKey'', JStr ''<REDACTED>'')])
   \<and> truthy (JObj [(''uri'', JStr ''<AZURE_ENDPOINT_PLACEHOLDER>''), (''apiKey'', JStr ''<REDACTED>'')])
   \<and> \<not> ai_services_available (Some ''https://ais'') None
   \<and> lookup_path
        (JObj [(''name'', JStr ''ks1''),
            (''azureBlobParameters'',
               JObj [(''connectionString'', JStr ''conn1''),
                     (''ingestionParameters'', JObj [(''aiServices'', JNull)])])])
        [Key ''azureBlobParameters'', Key ''ingestionParameters'', Key ''aiServices'']
      = Some JNull
   \<and> (\<forall>k. lookup_path
        (JObj [(''name'', JStr ''ks1''),
            (''azureBlobParameters'',
               JObj [(''connectionString'', JStr ''conn1''),
                     (''ingestionParameters'', JObj [(''aiServices'', JNull)])])])
        [Key ''azureBlobParameters'', Key ''ingestionParameters'', Key ''aiServices'', Key k] = None)"
proof -
  let ?d = "JObj [(''name'', JStr ''ks1''),
            (''azureBlobParameters'',
               JObj [(''connectionString'', JStr ''<REDACTED>''),
                     (''ingestionParameters'',
                        JObj [(''aiServices'',
                                 JObj [(''uri'', JStr ''<AZURE_ENDPOINT_PLACEHOLDER>''),
                                       (''apiKey'', JStr ''<REDACTED>'')])])])]"
  let ?d' = "JObj [(''name'', JStr ''ks1''),
            (''azureBlobParameters'',
               JObj [(''connectionString'', JStr ''conn1''),
                     (''ingestionParameters'', JObj [(''aiServices'', JNull)])])]"
  let ?svc = "JObj [(''uri'', JStr ''<AZURE_ENDPOINT_PLACEHOLDER>''), (''apiKey'', JStr ''<REDACTED>'')]"
  have h1: "replace_placeholders_in_knowledge_source ?d
     ''https://oai.openai.azure.com'' ''key1'' ''conn1'' ''docs'' (Some ''https://ais'') None = Inr ?d'"
    by (simp add: restore_eval)
  have h2: "lookup_path ?d [Key ''azureBlobParameters'', Key ''ingestionParameters'', Key ''aiServices'']
      = Some ?svc" by simp
  have h3: "truthy ?svc" by simp
  have h4: "\<not> ai_services_available (Some ''https://ais'') None"
    by (simp add: ai_services_available_def)
  note c = restore_nulls_ai_services[OF h1 h2 h3 h4]
  show ?thesis by (intro conjI) (rule h1 h2 h3 h4 c[THEN conjunct1] c[THEN conjunct2])+
qed

subsection \<open>What a restore changes\<close>

lemma update_both:
  "map fst kvs = map fst kvs' \<Longrightarrow>
   list_all2 (\<lambda>kv kv'. placeholder_subst (snd kv) (snd kv')) kvs kvs' \<Longrightarrow>
   map fst (AList.update k w kvs) = map fst (AList.update k w kvs')
   \<and> list_all2 (\<lambda>kv kv'. placeholder_subst (snd kv) (snd kv'))
        (AList.update k w kvs) (AList.update k w kvs')"
proof (induction kvs arbitrary: kvs')
  case Nil
  then show ?case by (simp add: placeholder_subst.same)
next
  case (Cons kv kvs)
  then obtain kv' kvs0 where k': "kvs' = kv' # kvs0" by (cases kvs') auto
  obtain a b where kv: "kv = (a, b)" by (cases kv)
  obtain a' b' where kv': "kv' = (a', b')" by (cases kv')
  have aa: "a' = a" using Cons.prems(1) k' kv kv' by simp
  have IH: "map fst (AList.update k w kvs) = map fst (AList.update k w kvs0)
     \<and> list_all2 (\<lambda>kv kv'. placeholder_subst (snd kv) (snd kv'))
        (AList.update k w kvs) (AList.update k w kvs0)"
    using Cons.prems k' by (intro Cons.IH) simp_all
  show ?case
  proof (cases "a = k")
    case True
    then show ?thesis using Cons.prems k' kv kv' aa by (simp add: placeholder_subst.same)
  next
    case False
    then show ?thesis using Cons.prems k' kv kv' aa IH by simp
  qed
qed

lemma set_field_subst:
  assumes "placeholder_subst a b"
  shows "placeholder_subst (set_field k w a) (set_field k w b)"
  using assms
proof (cases rule: placeholder_subst.cases)
  case same
  then show ?thesis by (simp add: placeholder_subst.same)
next
  case (token s)
  then show ?thesis by (simp add: set_field_def placeholder_subst.token)
next
  case (obj kvs kvs')
  then show ?thesis using update_both[of kvs kvs' k w]
    by (simp add: set_field_def placeholder_subst.obj)
next
  case (arr xs xs')
  then show ?thesis by (simp add: set_field_def placeholder_subst.arr)
qed

lemma set_field_py_setitem: "py_setitem d k v = Inr d' \<Longrightarrow> d' = set_field k v d"
  by (cases d) (simp_all add: set_field_def)

lemma set_field_other:
  "k' \<noteq> k \<Longrightarrow> lookup_path (set_field k v d) [Key k'] = lookup_path d [Key k']"
  by (cases d) (simp_all add: set_field_def update_conv')

lemma set_field_same_value:
  "lookup_path d [Key k] = Some v \<Longrightarrow> set_field k v d = d"
  by (cases d) (auto simp add: set_field_def update_triv split: option.splits)

lemma set_field_value_subst:
  assumes l: "lookup_path d [Key k] = Some v" and r: "placeholder_subst w w'"
  shows "placeholder_subst (set_field k w d) (set_field k w' d)"
proof -
  from l obtain kvs where d: "d = JObj kvs" by (cases d) simp_all
  have m: "map_of (AList.update k w kvs) k = Some w" by (simp add: update_conv')
  from placeholder_subst_update[OF m r] show ?thesis by (simp add: d set_field_def)
qed

lemma in_truthy_block_in_field:
  assumes b: "in_truthy_block k body d = Inr d'"
    and rel: "\<And>v v'. lookup_path d [Key k] = Some v \<Longrightarrow> truthy v \<Longrightarrow> body v = Inr v'
           \<Longrightarrow> placeholder_subst (f v) v'"
    and falsy: "\<And>v. \<not> truthy v \<Longrightarrow> f v = v"
  shows "placeholder_subst (in_field k f d) d'"
proof (cases "py_in k d")
  case (Inl e)
  then show ?thesis using b by (simp add: in_truthy_block_def)
next
  case (Inr present)
  show ?thesis
  proof (cases present)
    case False
    then have "d' = d" using b Inr by (simp add: in_truthy_block_def)
    moreover have "lookup_path d [Key k] = None"
      using Inr False by (cases d) (auto simp add: map_of_eq_None_iff split: option.splits)
    ultimately show ?thesis by (simp add: in_field_def placeholder_subst.same)
  next
    case True
    show ?thesis
    proof (cases "py_getitem d k")
      case (Inl e)
      then show ?thesis using b Inr True by (simp add: in_truthy_block_def)
    next
      case g: (Inr v)
      have l: "lookup_path d [Key k] = Some v" using Inr True g by (simp add: py_in_getitem)
      show ?thesis
      proof (cases "truthy v")
        case False
        then have "d' = d" using b Inr True g by (simp add: in_truthy_block_def)
        then show ?thesis using l falsy[OF False]
          by (simp add: in_field_def set_field_same_value placeholder_subst.same)
      next
        case t: True
        from b Inr True g t obtain v' where bv: "body v = Inr v'"
          and s: "py_setitem d k v' = Inr d'"
          by (auto simp add: in_truthy_block_def bind_err_Inr)
        have "placeholder_subst (set_field k (f v) d) (set_field k v' d)"
          using l rel[OF l t bv] by (rule set_field_value_subst)
        then show ?thesis using l set_field_py_setitem[OF s] by (simp add: in_field_def)
      qed
    qed
  qed
qed

lemma in_field_subst:
  assumes r: "placeholder_subst a b"
    and l: "lookup_path a [Key k] = lookup_path b [Key k]"
  shows "placeholder_subst (in_field k f a) (in_field k f b)"
  using r l by (cases "lookup_path b [Key k]") (simp_all add: in_field_def set_field_subst)

lemma value_at_truthy_lookup:
  "truthy (value_at d p) \<Longrightarrow> \<exists>v. lookup_path d p = Some v \<and> truthy v"
  by (cases "lookup_path d p") (simp_all add: value_at_def)

lemma remove_ai_services_falsy: "\<not> truthy ip \<Longrightarrow> remove_ai_services av ip = ip"
  by (cases ip) (simp_all add: remove_ai_services_def value_at_def)

lemma replace_ai_services_rel:
  assumes r: "replace_ai_services aie aik ip = Inr ip'"
  shows "placeholder_subst (remove_ai_services (ai_services_available aie aik) ip) ip'"
proof (cases "\<not> ai_services_available aie aik \<and> truthy (value_at ip [Key ''aiServices''])")
  case False
  then have "remove_ai_services (ai_services_available aie aik) ip = ip"
    by (auto simp add: remove_ai_services_def)
  moreover have "placeholder_subst ip ip'"
    using r by (rule replace_ai_services_subst) (use False in auto)
  ultimately show ?thesis by simp
next
  case True
  then obtain svc where l: "lookup_path ip [Key ''aiServices''] = Some svc" and t: "truthy svc"
    using value_at_truthy_lookup by blast
  have "py_setitem ip ''aiServices'' JNull = Inr ip'"
    using r t True lookup_Key_py_in[OF l] lookup_Key_py_getitem[OF l]
    by (auto simp add: replace_ai_services_def ai_services_available_def split: option.splits)
  then have "ip' = set_field ''aiServices'' JNull ip" by (rule set_field_py_setitem)
  then show ?thesis using True by (simp add: remove_ai_services_def placeholder_subst.same)
qed

lemma remove_ai_services_subst:
  assumes r: "placeholder_subst a b"
    and l: "lookup_path a [Key ''aiServices''] = lookup_path b [Key ''aiServices'']"
  shows "placeholder_subst (remove_ai_services av a) (remove_ai_services av b)"
proof -
  have "value_at a [Key ''aiServices''] = value_at b [Key ''aiServices'']"
    using l by (simp add: value_at_def)
  then show ?thesis using r by (simp add: remove_ai_services_def set_field_subst)
qed

lemma replace_blob_ingestion_rel:
  assumes r: "replace_blob_ingestion oe ok aie aik ip = Inr ip'"
  shows "placeholder_subst (remove_ai_services (ai_services_available aie aik) ip) ip'"
proof -
  from r obtain i1 i2 where
    1: "replace_in_model ''embeddingModel'' oe ok ip = Inr i1" and
    2: "replace_in_model ''chatCompletionModel'' oe ok i1 = Inr i2" and
    3: "replace_ai_services aie aik i2 = Inr ip'"
    unfolding replace_blob_ingestion_def bind_err_Inr by auto
  have l: "lookup_path ip [Key ''aiServices''] = lookup_path i2 [Key ''aiServices'']"
    using replace_in_model_other[OF 1, of "''aiServices''"]
      replace_in_model_other[OF 2, of "''aiServices''"] by simp
  have "placeholder_subst ip i2"
    by (rule placeholder_subst_trans[OF replace_in_model_subst[OF 1] replace_in_model_subst[OF 2]])
  then have "placeholder_subst (remove_ai_services (ai_services_available aie aik) ip)
      (remove_ai_services (ai_services_available aie aik) i2)"
    using l by (rule remove_ai_services_subst)
  then show ?thesis using replace_ai_services_rel[OF 3] by (rule placeholder_subst_trans)
qed

lemma replace_blob_params_rel:
  assumes r: "replace_blob_params oe ok scs bc aie aik bp = Inr bp'"
  shows "placeholder_subst
           (in_field ''ingestionParameters'' (remove_ai_services (ai_services_available aie aik))
              (fill_connection_string scs bp)) bp'"
proof -
  from r obtain cs b1 b2 where
    0: "py_get bp ''connectionString'' = Inr cs" and
    1: "(if cs \<in> {JStr ''<REDACTED>'', JNull, JStr ''''}
         then py_setitem bp ''connectionString'' (JStr scs) else Inr bp) = Inr b1" and
    2: "subst_placeholder ''containerName'' ''<BLOB_CONTAINER_PLACEHOLDER>'' (JStr bc) b1 = Inr b2" and
    3: "in_truthy_block ''ingestionParameters'' (replace_blob_ingestion oe ok aie aik) b2 = Inr bp'"
    unfolding replace_blob_params_def bind_err_Inr by auto
  let ?F = "fill_connection_string scs bp"
  from 0 obtain kvs where bp: "bp = JObj kvs" by (cases bp) (simp_all add: py_get_def)
  have cs: "cs = value_at bp [Key ''connectionString'']"
    using 0 bp by (simp add: py_get_def value_at_def split: option.splits)
  have r1: "placeholder_subst ?F b1"
  proof (cases "cs = JStr ''<REDACTED>''")
    case True
    then have m: "map_of kvs ''connectionString'' = Some (JStr ''<REDACTED>'')"
      using cs bp by (simp add: value_at_def split: option.splits)
    have "placeholder_subst (JStr ''<REDACTED>'') (JStr scs)"
      by (rule placeholder_subst.token) (rule is_placeholder_literals)
    from placeholder_subst_update[OF m this] show ?thesis
      using 1 True bp cs by (simp add: fill_connection_string_def)
  next
    case False
    show ?thesis
    proof (cases "cs \<in> {JNull, JStr ''''}")
      case True
      then have "py_setitem bp ''connectionString'' (JStr scs) = Inr b1" using 1 by auto
      then have "b1 = set_field ''connectionString'' (JStr scs) bp" by (rule set_field_py_setitem)
      then show ?thesis using True cs by (simp add: fill_connection_string_def placeholder_subst.same)
    next
      case f: False
      then have "b1 = bp" using 1 False by simp
      then show ?thesis using f cs by (simp add: fill_connection_string_def placeholder_subst.same)
    qed
  qed
  have r2: "placeholder_subst b1 b2"
    by (rule subst_placeholder_subst[OF 2 is_placeholder_literals(3)])
  have ip1: "lookup_path b2 [Key ''ingestionParameters''] = lookup_path bp [Key ''ingestionParameters'']"
  proof -
    have "lookup_path b1 [Key ''ingestionParameters''] = lookup_path bp [Key ''ingestionParameters'']"
    proof (cases "cs \<in> {JStr ''<REDACTED>'', JNull, JStr ''''}")
      case True
      with 1 have "py_setitem bp ''connectionString'' (JStr scs) = Inr b1" by (simp only: if_True)
      from py_setitem_other[OF this, of "''ingestionParameters''"] show ?thesis by simp
    next
      case False
      with 1 show ?thesis by (simp only: if_False sum.inject)
    qed
    then show ?thesis using subst_placeholder_other[OF 2, of "''ingestionParameters''"] by simp
  qed
  have ip2: "lookup_path ?F [Key ''ingestionParameters''] = lookup_path bp [Key ''ingestionParameters'']"
    by (simp add: fill_connection_string_def set_field_other)
  have "placeholder_subst ?F b2" by (rule placeholder_subst_trans[OF r1 r2])
  then have a: "placeholder_subst
      (in_field ''ingestionParameters'' (remove_ai_services (ai_services_available aie aik)) ?F)
      (in_field ''ingestionParameters'' (remove_ai_services (ai_services_available aie aik)) b2)"
    by (rule in_field_subst) (simp add: ip1 ip2)
  have b: "placeholder_subst
      (in_field ''ingestionParameters'' (remove_ai_services (ai_services_available aie aik)) b2) bp'"
    using 3
  proof (rule in_truthy_block_in_field)
    fix v v' assume "replace_blob_ingestion oe ok aie aik v = Inr v'"
    then show "placeholder_subst (remove_ai_services (ai_services_available aie aik) v) v'"
      by (rule replace_blob_ingestion_rel)
  qed (rule remove_ai_services_falsy)
  show ?thesis by (rule placeholder_subst_trans[OF a b])
qed

lemma replace_ks_rel:
  assumes r: "replace_placeholders_in_knowledge_source d oe ok scs bc aie aik = Inr d'"
  shows "\<exists>d0. pop_odata d = Inr d0
     \<and> placeholder_subst (set_without_token scs (ai_services_available aie aik) d0) d'"
proof -
  from r obtain d0 d1 d2 where
    0: "pop_odata d = Inr d0" and
    1: "in_truthy_block ''azureBlobParameters'' (replace_blob_params oe ok scs bc aie aik) d0 = Inr d1" and
    2: "in_truthy_block ''indexedOneLakeParameters'' (replace_indexed_params oe ok) d1 = Inr d2" and
    3: "in_truthy_block ''indexedSharePointParameters'' (replace_indexed_params oe ok) d2 = Inr d'"
    unfolding replace_placeholders_in_knowledge_source_def bind_err_Inr by auto
  have r1: "placeholder_subst (set_without_token scs (ai_services_available aie aik) d0) d1"
    unfolding set_without_token_def using 1
  proof (rule in_truthy_block_in_field)
    fix v v' assume "truthy v" and "replace_blob_params oe ok scs bc aie aik v = Inr v'"
    then show "placeholder_subst
        (if truthy v
         then in_field ''ingestionParameters'' (remove_ai_services (ai_services_available aie aik))
                (fill_connection_string scs v)
         else v) v'"
      by (simp add: replace_blob_params_rel)
  qed simp
  have r2: "placeholder_subst d1 d2"
    by (rule in_truthy_block_subst[OF 2]) (erule replace_indexed_params_subst)
  have r3: "placeholder_subst d2 d'"
    by (rule in_truthy_block_subst[OF 3]) (erule replace_indexed_params_subst)
  show ?thesis
    using 0 placeholder_subst_trans[OF r1 placeholder_subst_trans[OF r2 r3]] by blast
qed

lemma in_field_id:
  assumes "\<And>v. lookup_path d [Key k] = Some v \<Longrightarrow> f v = v"
  shows "in_field k f d = d"
  using assms by (cases "lookup_path d [Key k]") (simp_all add: in_field_def set_field_same_value)

lemma set_without_token_id:
  assumes c: "truthy (value_at d [Key ''azureBlobParameters''])
            \<longrightarrow> value_at d [Key ''azureBlobParameters'', Key ''connectionString''] \<noteq> JNull
              \<and> value_at d [Key ''azureBlobParameters'', Key ''connectionString''] \<noteq> JStr ''''"
    and a: "available
            \<or> \<not> truthy (value_at d [Key ''azureBlobParameters'', Key ''ingestionParameters'',
                                      Key ''aiServices''])"
  shows "set_without_token scs available d = d"
  unfolding set_without_token_def
proof (rule in_field_id)
  fix bp assume l: "lookup_path d [Key ''azureBlobParameters''] = Some bp"
  then have v: "value_at d [Key ''azureBlobParameters''] = bp" by (simp add: value_at_def)
  show "(if truthy bp
         then in_field ''ingestionParameters'' (remove_ai_services available)
                (fill_connection_string scs bp)
         else bp) = bp"
  proof (cases "truthy bp")
    case False
    then show ?thesis by simp
  next
    case True
    have "value_at bp [Key ''connectionString''] \<noteq> JNull"
      "value_at bp [Key ''connectionString''] \<noteq> JStr ''''"
      using c True v value_at_Key[OF l, of "[Key ''connectionString'']"] by simp_all
    then have f: "fill_connection_string scs bp = bp" by (simp add: fill_connection_string_def)
    have "in_field ''ingestionParameters'' (remove_ai_services available) bp = bp"
    proof (rule in_field_id)
      fix ip assume li: "lookup_path bp [Key ''ingestionParameters''] = Some ip"
      have "value_at d [Key ''azureBlobParameters'', Key ''ingestionParameters'', Key ''aiServices'']
          = value_at ip [Key ''aiServices'']"
        using value_at_Key[OF l, of "[Key ''ingestionParameters'', Key ''aiServices'']"]
          value_at_Key[OF li, of "[Key ''aiServices'']"] by simp
      then show "remove_ai_services available ip = ip"
        using a by (auto simp add: remove_ai_services_def)
    qed
    then show ?thesis using True f by simp
  qed
qed

lemma replace_blob_params_connection_string:
  assumes r: "replace_blob_params oe ok scs bc aie aik bp = Inr bp'"
    and c: "value_at bp [Key ''connectionString''] \<in> {JStr ''<REDACTED>'', JNull, JStr ''''}"
  shows "lookup_path bp' [Key ''connectionString''] = Some (JStr scs)"
proof -
  from r obtain cs b1 b2 where
    0: "py_get bp ''connectionString'' = Inr cs" and
    1: "(if cs \<in> {JStr ''<REDACTED>'', JNull, JStr ''''}
         then py_setitem bp ''connectionString'' (JStr scs) else Inr bp) = Inr b1" and
    2: "subst_placeholder ''containerName'' ''<BLOB_CONTAINER_PLACEHOLDER>'' (JStr bc) b1 = Inr b2" and
    3: "in_truthy_block ''ingestionParameters'' (replace_blob_ingestion oe ok aie aik) b2 = Inr bp'"
    unfolding replace_blob_params_def bind_err_Inr by auto
  from 0 obtain kvs where bp: "bp = JObj kvs" by (cases bp) (simp_all add: py_get_def)
  have cs: "cs = value_at bp [Key ''connectionString'']"
    using 0 bp by (simp add: py_get_def value_at_def split: option.splits)
  have "py_setitem bp ''connectionString'' (JStr scs) = Inr b1" using 1 c cs by simp
  then have "lookup_path b1 [Key ''connectionString''] = Some (JStr scs)" by (rule py_setitem_same)
  then have "lookup_path b2 [Key ''connectionString''] = Some (JStr scs)"
    using subst_placeholder_other[OF 2, of "''connectionString''"] by simp
  then show ?thesis
    using in_truthy_block_other[OF 3, of "''connectionString''"] by simp
qed

lemma replace_ks_connection_string:
  assumes r: "replace_placeholders_in_knowledge_source d oe ok scs bc aie aik = Inr d'"
    and t: "truthy (value_at d [Key ''azureBlobParameters''])"
    and c: "value_at d [Key ''azureBlobParameters'', Key ''connectionString'']
              \<in> {JStr ''<REDACTED>'', JNull, JStr ''''}"
  shows "lookup_path d' [Key ''azureBlobParameters'', Key ''connectionString''] = Some (JStr scs)"
proof -
  from r obtain d0 d1 d2 where
    0: "pop_odata d = Inr d0" and
    1: "in_truthy_block ''azureBlobParameters'' (replace_blob_params oe ok scs bc aie aik) d0 = Inr d1" and
    2: "in_truthy_block ''indexedOneLakeParameters'' (replace_indexed_params oe ok) d1 = Inr d2" and
    3: "in_truthy_block ''indexedSharePointParameters'' (replace_indexed_params oe ok) d2 = Inr d'"
    unfolding replace_placeholders_in_knowledge_source_def bind_err_Inr by auto
  from t obtain bp where lb: "lookup_path d [Key ''azureBlobParameters''] = Some bp"
    and tb: "truthy bp"
    using value_at_truthy_lookup by blast
  have cb: "value_at bp [Key ''connectionString''] \<in> {JStr ''<REDACTED>'', JNull, JStr ''''}"
    using c value_at_Key[OF lb, of "[Key ''connectionString'']"] by simp
  have lb0: "lookup_path d0 [Key ''azureBlobParameters''] = Some bp"
    using pop_odata_other[OF 0, of "''azureBlobParameters''"] lb by simp
  from in_truthy_block_same[OF 1 lb0 tb] obtain bp' where
    b: "replace_blob_params oe ok scs bc aie aik bp = Inr bp'"
    and l1: "lookup_path d1 [Key ''azureBlobParameters''] = Some bp'" by blast
  have "lookup_path d' [Key ''azureBlobParameters''] = Some bp'"
    using in_truthy_block_other[OF 2, of "''azureBlobParameters''"]
      in_truthy_block_other[OF 3, of "''azureBlobParameters''"] l1 by simp
  moreover have "lookup_path bp' [Key ''connectionString''] = Some (JStr scs)"
    by (rule replace_blob_params_connection_string[OF b cb])
  ultimately show ?thesis
    by (simp add: lookup_path_Key[of d' "''azureBlobParameters''" "[Key ''connectionString'']"])
qed

text \<open>
  Claim C9, as stated, fails: the connection string is also replaced when it is the empty
  string (or \<^verbatim>\<open>None\<close>, or missing), which is not one of the three tokens.
\<close>

theorem restore_fills_empty_connection_string_counterexample:
  "replace_placeholders_in_knowledge_source
     (JObj [(''name'', JStr ''ks1''),
            (''azureBlobParameters'',
               JObj [(''connectionString'', JStr ''''), (''containerName'', JStr ''docs'')])])
     ''https://oai.openai.azure.com'' ''key1'' ''conn1'' ''foundry-iq-data'' None None
   = Inr (JObj [(''name'', JStr ''ks1''),
            (''azureBlobParameters'',
               JObj [(''connectionString'', JStr ''conn1''), (''containerName'', JStr ''docs'')])])"
  by (simp add: restore_eval)

text \<open>
  Claim C9, amended. Apart from dropping the two protocol metadata keys at the top level,
  a restore that returns changes a document in three ways only. A value that equals one
  of the three placeholder tokens may get a new value. In a non-empty
  \<^verbatim>\<open>azureBlobParameters\<close>, a \<^verbatim>\<open>connectionString\<close> that is missing, \<^verbatim>\<open>null\<close> or empty is set
  to the storage connection string. A non-empty \<^verbatim>\<open>aiServices\<close> block of
  \<^verbatim>\<open>azureBlobParameters.ingestionParameters\<close> is set to \<^verbatim>\<open>null\<close> when no AI-services
  credential is supplied. Keys, their order, list lengths and every other value are as
  they were: the restored document is \<open>set_without_token\<close> of the input with tokens
  replaced (\<open>placeholder_subst\<close>), for a knowledge source; for a knowledge base it is the
  input with tokens replaced. Where neither of the two cases applies, \<open>set_without_token\<close>
  of a document is the document (\<open>set_without_token_id\<close>).
\<close>

theorem restore_substitutes_only_placeholders:
  "(replace_placeholders_in_knowledge_source d oe ok scs bc aie aik = Inr d'
    \<longrightarrow> (\<exists>d0. pop_odata d = Inr d0
           \<and> placeholder_subst (set_without_token scs (ai_services_available aie aik) d0) d'))
   \<and> (replace_placeholders_in_knowledge_source d oe ok scs bc aie aik = Inr d'
      \<and> truthy (value_at d [Key ''azureBlobParameters''])
      \<and> value_at d [Key ''azureBlobParameters'', Key ''connectionString'']
           \<in> {JStr ''<REDACTED>'', JNull, JStr ''''}
    \<longrightarrow> lookup_path d' [Key ''azureBlobParameters'', Key ''connectionString''] = Some (JStr scs))
   \<and> (replace_placeholders_in_knowledge_base kb oe ok = Inr kb'
    \<longrightarrow> (\<exists>kb0. pop_odata kb = Inr kb0 \<and> placeholder_subst kb0 kb'))"
proof (intro conjI impI)
  assume "replace_placeholders_in_knowledge_source d oe ok scs bc aie aik = Inr d'"
  then show "\<exists>d0. pop_odata d = Inr d0
           \<and> placeholder_subst (set_without_token scs (ai_services_available aie aik) d0) d'"
    by (rule replace_ks_rel)
next
  assume a: "replace_placeholders_in_knowledge_source d oe ok scs bc aie aik = Inr d'
      \<and> truthy (value_at d [Key ''azureBlobParameters''])
      \<and> value_at d [Key ''azureBlobParameters'', Key ''connectionString'']
           \<in> {JStr ''<REDACTED>'', JNull, JStr ''''}"
  from a have 1: "replace_placeholders_in_knowledge_source d oe ok scs bc aie aik = Inr d'" ..
  from a have 2: "truthy (value_at d [Key ''azureBlobParameters''])" by (elim conjE)
  from a have 3: "value_at d [Key ''azureBlobParameters'', Key ''connectionString'']
           \<in> {JStr ''<REDACTED>'', JNull, JStr ''''}" by (elim conjE)
  show "lookup_path d' [Key ''azureBlobParameters'', Key ''connectionString''] = Some (JStr scs)"
    by (rule replace_ks_connection_string[OF 1 2 3])
next
  assume "replace_placeholders_in_knowledge_base kb oe ok = Inr kb'"
  then show "\<exists>kb0. pop_odata kb = Inr kb0 \<and> placeholder_subst kb0 kb'"
    by (rule replace_kb_subst)
qed

theorem restore_substitutes_only_placeholders_witness:
  "replace_placeholders_in_knowledge_source
     (JObj [(''@odata.etag'', JStr ''0x8DE4C1''), (''name'', JStr ''ks1''),
            (''azureBlobParameters'',
               JObj [(''connectionString'', JStr ''''),
                     (''containerName'', JStr ''<BLOB_CONTAINER_PLACEHOLDER>''),
                     (''folderPath'', JStr ''docs''),
                     (''ingestionParameters'',
                        JObj [(''aiServices'', JObj [(''uri'', JStr ''<AZURE_ENDPOINT_PLACEHOLDER>'')])])])])
     ''https://oai.openai.azure.com'' ''key1'' ''conn1'' ''foundry-iq-data'' None None
   = Inr (JObj [(''name'', JStr ''ks1''),
            (''azureBlobParameters'',
               JObj [(''connectionString'', JStr ''conn1''),
                     (''containerName'', JStr ''foundry-iq-data''),
                     (''folderPath'', JStr ''docs''),
                     (''ingestionParameters'', JObj [(''aiServices'', JNull)])])])
   \<and> (\<exists>d0. pop_odata (JObj [(''@odata.etag'', JStr ''0x8DE4C1''), (''name'', JStr ''ks1''),
            (''azureBlobParameters'',
               JObj [(''connectionString'', JStr ''''),
                     (''containerName'', JStr ''<BLOB_CONTAINER_PLACEHOLDER>''),
                     (''folderPath'', JStr ''docs''),
                     (''ingestionParameters'',
                        JObj [(''aiServices'', JObj [(''uri'', JStr ''<AZURE_ENDPOINT_PLACEHOLDER>'')])])])]) = Inr d0
         \<and> placeholder_subst (set_without_token ''conn1'' (ai_services_available None None) d0)
              (JObj [(''name'', JStr ''ks1''),
                (''azureBlobParameters'',
                   JObj [(''connectionString'', JStr ''conn1''),
                         (''containerName'', JStr ''foundry-iq-data''),
                         (''folderPath'', JStr ''docs''),
                         (''ingestionParameters'', JObj [(''aiServices'', JNull)])])]))
   \<and> set_without_token ''conn1'' (ai_services_available None None)
        (JObj [(''name'', JStr ''ks1''),
            (''azureBlobParameters'',
               JObj [(''connectionString'', JStr ''''),
                     (''containerName'', JStr ''<BLOB_CONTAINER_PLACEHOLDER>''),
                     (''folderPath'', JStr ''docs''),
                     (''ingestionParameters'',
                        JObj [(''aiServices'', JObj [(''uri'', JStr ''<AZURE_ENDPOINT_PLACEHOLDER>'')])])])])
      = JObj [(''name'', JStr ''ks1''),
            (''azureBlobParameters'',
               JObj [(''connectionString'', JStr ''conn1''),
                     (''containerName'', JStr ''<BLOB_CONTAINER_PLACEHOLDER>''),
                     (''folderPath'', JStr ''docs''),
                     (''ingestionParameters'', JObj [(''aiServices'', JNull)])])]
   \<and> truthy (value_at (JObj [(''@odata.etag'', JStr ''0x8DE4C1''), (''name'', JStr ''ks1''),
            (''azureBlobParameters'',
               JObj [(''connectionString'', JStr ''''),
                     (''containerName'', JStr ''<BLOB_CONTAINER_PLACEHOLDER>''),
                     (''folderPath'', JStr ''docs''),
                     (''ingestionParameters'',
                        JObj [(''aiServices'', JObj [(''uri'', JStr ''<AZURE_ENDPOINT_PLACEHOLDER>'')])])])])
        [Key ''azureBlobParameters''])
   \<and> lookup_path (JObj [(''name'', JStr ''ks1''),
            (''azureBlobParameters'',
               JObj [(''connectionString'', JStr ''conn1''),
                     (''containerName'', JStr ''foundry-iq-data''),
                     (''folderPath'', JStr ''docs''),
                     (''ingestionParameters'', JObj [(''aiServices'', JNull)])])])
        [Key ''azureBlobParameters'', Key ''connectionString''] = Some (JStr ''conn1'')
   \<and> replace_placeholders_in_knowledge_base
        (JObj [(''name'', JStr ''kb1''),
               (''models'', JArr [JObj [(''azureOpenAIParameters'',
                   JObj [(''resourceUri'', JStr ''<AZURE_ENDPOINT_PLACEHOLDER>''),
                         (''deploymentId'', JStr ''gpt-4o''),
                         (''apiKey'', JStr ''<REDACTED>'')])]])])
        ''https://oai.openai.azure.com'' ''key1''
      = Inr (JObj [(''name'', JStr ''kb1''),
               (''models'', JArr [JObj [(''azureOpenAIParameters'',
                   JObj [(''resourceUri'', JStr ''https://oai.openai.azure.com''),
                         (''deploymentId'', JStr ''gpt-4o''),
                         (''apiKey'', JStr ''key1'')])]])])
   \<and> (\<exists>kb0. pop_odata (JObj [(''name'', JStr ''kb1''),
               (''models'', JArr [JObj [(''azureOpenAIParameters'',
                   JObj [(''resourceUri'', JStr ''<AZURE_ENDPOINT_PLACEHOLDER>''),
                         (''deploymentId'', JStr ''gpt-4o''),
                         (''apiKey'', JStr ''<REDACTED>'')])]])]) = Inr kb0
         \<and> placeholder_subst kb0
              (JObj [(''name'', JStr ''kb1''),
               (''models'', JArr [JObj [(''azureOpenAIParameters'',
                   JObj [(''resourceUri'', JStr ''https://oai.openai.azure.com''),
                         (''deploymentId'', JStr ''gpt-4o''),
                         (''apiKey'', JStr ''key1'')])]])]))"
proof -
  let ?d = "JObj [(''@odata.etag'', JStr ''0x8DE4C1''), (''name'', JStr ''ks1''),
            (''azureBlobParameters'',
               JObj [(''connectionString'', JStr ''''),
                     (''containerName'', JStr ''<BLOB_CONTAINER_PLACEHOLDER>''),
                     (''folderPath'', JStr ''docs''),
                     (''ingestionParameters'',
                        JObj [(''aiServices'', JObj [(''uri'', JStr ''<AZURE_ENDPOINT_PLACEHOLDER>'')])])])]"
  let ?d' = "JObj [(''name'', JStr ''ks1''),
            (''azureBlobParameters'',
               JObj [(''connectionString'', JStr ''conn1''),
                     (''containerName'', JStr ''foundry-iq-data''),
                     (''folderPath'', JStr ''docs''),
                     (''ingestionParameters'', JObj [(''aiServices'', JNull)])])]"
  let ?kb = "JObj [(''name'', JStr ''kb1''),
               (''models'', JArr [JObj [(''azureOpenAIParameters'',
                   JObj [(''resourceUri'', JStr ''<AZURE_ENDPOINT_PLACEHOLDER>''),
                         (''deploymentId'', JStr ''gpt-4o''),
                         (''apiKey'', JStr ''<REDACTED>'')])]])]"
  let ?kb' = "JObj [(''name'', JStr ''kb1''),
               (''models'', JArr [JObj [(''azureOpenAIParameters'',
                   JObj [(''resourceUri'', JStr ''https://oai.openai.azure.com''),
                         (''deploymentId'', JStr ''gpt-4o''),
                         (''apiKey'', JStr ''key1'')])]])]"
  have h1: "replace_placeholders_in_knowledge_source ?d
     ''https://oai.openai.azure.com'' ''key1'' ''conn1'' ''foundry-iq-data'' None None = Inr ?d'"
    by (simp add: restore_eval)
  have h2: "truthy (value_at ?d [Key ''azureBlobParameters''])"
    by (simp add: value_at_def)
  have h3: "value_at ?d [Key ''azureBlobParameters'', Key ''connectionString'']
           \<in> {JStr ''<REDACTED>'', JNull, JStr ''''}"
    by (simp add: value_at_def)
  have h4: "replace_placeholders_in_knowledge_base ?kb ''https://oai.openai.azure.com'' ''key1''
      = Inr ?kb'"
    by (simp add: restore_eval)
  have e: "set_without_token ''conn1'' (ai_services_available None None)
        (JObj [(''name'', JStr ''ks1''),
            (''azureBlobParameters'',
               JObj [(''connectionString'', JStr ''''),
                     (''containerName'', JStr ''<BLOB_CONTAINER_PLACEHOLDER>''),
                     (''folderPath'', JStr ''docs''),
                     (''ingestionParameters'',
                        JObj [(''aiServices'', JObj [(''uri'', JStr ''<AZURE_ENDPOINT_PLACEHOLDER>'')])])])])
      = JObj [(''name'', JStr ''ks1''),
            (''azureBlobParameters'',
               JObj [(''connectionString'', JStr ''conn1''),
                     (''containerName'', JStr ''<BLOB_CONTAINER_PLACEHOLDER>''),
                     (''folderPath'', JStr ''docs''),
                     (''ingestionParameters'', JObj [(''aiServices'', JNull)])])]"
    by (simp add: set_without_token_def in_field_def set_field_def fill_connection_string_def
        remove_ai_services_def ai_services_available_def value_at_def)
  note c1 = restore_substitutes_only_placeholders[THEN conjunct1, rule_format, OF h1]
  note c2 = restore_substitutes_only_placeholders[THEN conjunct2, THEN conjunct1, rule_format,
      OF conjI[OF h1 conjI[OF h2 h3]]]
  note c3 = restore_substitutes_only_placeholders[THEN conjunct2, THEN conjunct2, rule_format, OF h4]
  show ?thesis by (intro conjI) (rule h1 h2 h4 e c1 c2 c3)+
qed

lemma falsy_no_placeholder: "\<not> truthy v \<Longrightarrow> no_placeholder v"
  by (cases v) (simp_all add: is_placeholder_def REDACTED_PLACEHOLDER_def URL_PLACEHOLDER_def
      CONTAINER_PLACEHOLDER_def)

lemma fields_JObj:
  "fields_as F (JObj kvs) \<longleftrightarrow> distinct (map fst kvs) \<and> (\<forall>kv \<in> set kvs. F (fst kv) (snd kv))"
  by (simp add: fields_as_def)

lemma fields_no_placeholder:
  assumes "fields_as F v" and "\<And>k x. F k x \<Longrightarrow> no_placeholder x"
  shows "no_placeholder v"
  using assms by (cases v) (auto simp add: fields_as_def)

lemma fields_lookup:
  "fields_as F d \<Longrightarrow> lookup_path d [Key k] = Some v \<Longrightarrow> F k v"
  by (cases d) (auto simp add: fields_as_def split: option.splits dest: map_of_SomeD)

lemma set_update_distinct:
  "distinct (map fst kvs) \<Longrightarrow> kv \<in> set (AList.update k v kvs) \<Longrightarrow>
   kv = (k, v) \<or> (kv \<in> set kvs \<and> fst kv \<noteq> k)"
  by (induction kvs) (auto split: if_splits)

lemma fields_setitem:
  assumes f: "fields_as F d" and s: "py_setitem d k v = Inr d'" and q: "Q v"
  shows "fields_as (F(k := Q)) d'"
proof -
  from s obtain kvs where d: "d = JObj kvs" and d': "d' = JObj (AList.update k v kvs)"
    by (cases d) auto
  have dist: "distinct (map fst kvs)" using f d by (simp add: fields_JObj)
  have "\<And>kv. kv \<in> set (AList.update k v kvs) \<Longrightarrow> (F(k := Q)) (fst kv) (snd kv)"
  proof -
    fix kv assume "kv \<in> set (AList.update k v kvs)"
    from set_update_distinct[OF dist this] show "(F(k := Q)) (fst kv) (snd kv)"
      using f q d by (auto simp add: fields_JObj)
  qed
  then show ?thesis using dist d' by (simp add: fields_JObj distinct_update)
qed

lemma fields_unchanged:
  assumes f: "fields_as F d" and q: "\<And>v. lookup_path d [Key k] = Some v \<Longrightarrow> Q v"
  shows "fields_as (F(k := Q)) d"
proof (cases d)
  case (JObj kvs)
  have "\<And>kv. kv \<in> set kvs \<Longrightarrow> fst kv = k \<Longrightarrow> Q (snd kv)"
  proof -
    fix kv assume "kv \<in> set kvs" "fst kv = k"
    then have "map_of kvs k = Some (snd kv)" using f JObj
      by (cases kv) (auto simp add: fields_JObj intro: map_of_is_SomeI)
    then show "Q (snd kv)" using q JObj by simp
  qed
  then show ?thesis using f JObj by (auto simp add: fields_JObj)
qed (use f in \<open>simp_all add: fields_as_def\<close>)

lemma fields_in_truthy_block:
  assumes f: "fields_as F d" and r: "in_truthy_block k body d = Inr d'"
    and b: "\<And>v v'. F k v \<Longrightarrow> truthy v \<Longrightarrow> body v = Inr v' \<Longrightarrow> Q v'"
    and e: "\<And>v. F k v \<Longrightarrow> \<not> truthy v \<Longrightarrow> Q v"
  shows "fields_as (F(k := Q)) d'"
proof (cases "py_in k d")
  case (Inl e)
  then show ?thesis using r by (simp add: in_truthy_block_def)
next
  case (Inr present)
  show ?thesis
  proof (cases present)
    case False
    then have "d' = d" using r Inr by (simp add: in_truthy_block_def)
    moreover have "\<And>v. lookup_path d [Key k] = Some v \<Longrightarrow> Q v"
      using lookup_Key_py_in Inr False by fastforce
    ultimately show ?thesis using fields_unchanged[OF f] by simp
  next
    case True
    show ?thesis
    proof (cases "py_getitem d k")
      case (Inl e)
      then show ?thesis using r Inr True by (simp add: in_truthy_block_def)
    next
      case g: (Inr v)
      have l: "lookup_path d [Key k] = Some v" using Inr True g by (simp add: py_in_getitem)
      have fk: "F k v" by (rule fields_lookup[OF f l])
      show ?thesis
      proof (cases "truthy v")
        case False
        then have "d' = d" using r Inr True g by (simp add: in_truthy_block_def)
        moreover have "\<And>w. lookup_path d [Key k] = Some w \<Longrightarrow> Q w"
          using l e[OF fk False] by simp
        ultimately show ?thesis using fields_unchanged[OF f] by simp
      next
        case t: True
        from r Inr True g t obtain v' where bv: "body v = Inr v'"
          and s: "py_setitem d k v' = Inr d'"
          by (auto simp add: in_truthy_block_def bind_err_Inr)
        show ?thesis using f s b[OF fk t bv] by (rule fields_setitem)
      qed
    qed
  qed
qed

lemma fields_in_block:
  assumes f: "fields_as F d" and r: "in_block k body d = Inr d'"
    and b: "\<And>v v'. F k v \<Longrightarrow> body v = Inr v' \<Longrightarrow> Q v'"
  shows "fields_as (F(k := Q)) d'"
proof (cases "py_in k d")
  case (Inl e)
  then show ?thesis using r by (simp add: in_block_def)
next
  case (Inr present)
  show ?thesis
  proof (cases present)
    case False
    then have "d' = d" using r Inr by (simp add: in_block_def)
    moreover have "\<And>v. lookup_path d [Key k] = Some v \<Longrightarrow> Q v"
      using lookup_Key_py_in Inr False by fastforce
    ultimately show ?thesis using fields_unchanged[OF f] by simp
  next
    case True
    show ?thesis
    proof (cases "py_getitem d k")
      case (Inl e)
      then show ?thesis using r Inr True by (simp add: in_block_def)
    next
      case g: (Inr v)
      have l: "lookup_path d [Key k] = Some v" using Inr True g by (simp add: py_in_getitem)
      have fk: "F k v" by (rule fields_lookup[OF f l])
      from r Inr True g obtain v' where bv: "body v = Inr v'"
        and s: "py_setitem d k v' = Inr d'"
        by (auto simp add: in_block_def bind_err_Inr)
      show ?thesis using f s b[OF fk bv] by (rule fields_setitem)
    qed
  qed
qed

lemma fields_subst_placeholder:
  assumes f: "fields_as F d" and r: "subst_placeholder k t live d = Inr d'"
    and m: "\<And>v. F k v \<Longrightarrow> v = JStr t \<or> Q v" and q: "Q live"
  shows "fields_as (F(k := Q)) d'"
proof -
  from r obtain v where g: "py_get d k = Inr v"
    and s: "(if v = JStr t then py_setitem d k live else Inr d) = Inr d'"
    unfolding subst_placeholder_def bind_err_Inr by auto
  show ?thesis
  proof (cases "v = JStr t")
    case True
    with s have "py_setitem d k live = Inr d'" by simp
    with f show ?thesis using q by (rule fields_setitem)
  next
    case False
    with s have d': "d' = d" by simp
    have "\<And>w. lookup_path d [Key k] = Some w \<Longrightarrow> Q w"
    proof -
      fix w assume l: "lookup_path d [Key k] = Some w"
      then have "w = v" using g by (cases d) (auto simp add: py_get_def split: option.splits)
      then show "Q w" using m[OF fields_lookup[OF f l]] False by simp
    qed
    then show ?thesis using fields_unchanged[OF f] d' by simp
  qed
qed

lemma fields_py_pop:
  assumes f: "fields_as F d" and r: "py_pop d k = Inr d'"
  shows "fields_as (F(k := Q)) d'"
proof -
  from r obtain kvs where d: "d = JObj kvs" and d': "d' = JObj (AList.delete k kvs)"
    by (cases d) auto
  have dist: "distinct (map fst (AList.delete k kvs))"
    using f d by (simp add: fields_JObj distinct_delete)
  have "\<And>kv. kv \<in> set (AList.delete k kvs) \<Longrightarrow> kv \<in> set kvs \<and> fst kv \<noteq> k"
    by (auto simp add: AList.delete_eq)
  then show ?thesis using f d d' dist
    by (auto simp add: fields_JObj)
qed

lemma no_placeholder_JStr [simp]: "no_placeholder (JStr s) \<longleftrightarrow> \<not> is_placeholder s"
  by simp

lemma replace_aoai_params_clean:
  assumes f: "AOAI_FIELDS a" and r: "replace_aoai_params oe ok a = Inr a'"
    and c: "\<not> is_placeholder oe" "\<not> is_placeholder ok"
  shows "no_placeholder a'"
proof -
  let ?F = "\<lambda>k. case map_of [(''resourceUri'', may_hold ''<AZURE_ENDPOINT_PLACEHOLDER>''),
                (''apiKey'', may_hold ''<REDACTED>'')] k of Some P \<Rightarrow> P | None \<Rightarrow> no_placeholder"
  have f0: "fields_as ?F a" using f by (simp add: AOAI_FIELDS_def fields_of_def)
  from r obtain a1 where
    1: "subst_placeholder ''resourceUri'' ''<AZURE_ENDPOINT_PLACEHOLDER>'' (JStr oe) a = Inr a1" and
    2: "subst_placeholder ''apiKey'' ''<REDACTED>'' (JStr ok) a1 = Inr a'"
    unfolding replace_aoai_params_def bind_err_Inr by auto
  have f1: "fields_as (?F(''resourceUri'' := no_placeholder)) a1"
    using f0 1 by (rule fields_subst_placeholder) (simp_all add: may_hold_def c)
  have f2: "fields_as (?F(''resourceUri'' := no_placeholder, ''apiKey'' := no_placeholder)) a'"
    using f1 2 by (rule fields_subst_placeholder) (simp_all add: may_hold_def c)
  show ?thesis using f2 by (rule fields_no_placeholder) (simp split: if_splits)
qed

lemma model_block_clean:
  assumes f: "MODEL_FIELDS m"
    and r: "in_truthy_block ''azureOpenAIParameters'' (replace_aoai_params oe ok) m = Inr m'"
    and c: "\<not> is_placeholder oe" "\<not> is_placeholder ok"
  shows "no_placeholder m'"
proof -
  let ?F = "\<lambda>k. case map_of [(''azureOpenAIParameters'', AOAI_FIELDS)] k of
              Some P \<Rightarrow> P | None \<Rightarrow> no_placeholder"
  have f0: "fields_as ?F m" using f by (simp add: MODEL_FIELDS_def fields_of_def)
  have f1: "fields_as (?F(''azureOpenAIParameters'' := no_placeholder)) m'"
    using f0 r
  proof (rule fields_in_truthy_block)
    fix v v' assume "?F ''azureOpenAIParameters'' v" "replace_aoai_params oe ok v = Inr v'"
    then show "no_placeholder v'" using c by (simp add: replace_aoai_params_clean)
  next
    fix v assume "\<not> truthy v"
    then show "no_placeholder v" by (rule falsy_no_placeholder)
  qed
  show ?thesis using f1 by (rule fields_no_placeholder) (simp split: if_splits)
qed

lemma model_in_block_clean:
  assumes f: "MODEL_FIELDS m"
    and r: "in_block ''azureOpenAIParameters'' (replace_aoai_params oe ok) m = Inr m'"
    and c: "\<not> is_placeholder oe" "\<not> is_placeholder ok"
  shows "no_placeholder m'"
proof -
  let ?F = "\<lambda>k. case map_of [(''azureOpenAIParameters'', AOAI_FIELDS)] k of
              Some P \<Rightarrow> P | None \<Rightarrow> no_placeholder"
  have f0: "fields_as ?F m" using f by (simp add: MODEL_FIELDS_def fields_of_def)
  have f1: "fields_as (?F(''azureOpenAIParameters'' := no_placeholder)) m'"
    using f0 r
  proof (rule fields_in_block)
    fix v v' assume "?F ''azureOpenAIParameters'' v" "replace_aoai_params oe ok v = Inr v'"
    then show "no_placeholder v'" using c by (simp add: replace_aoai_params_clean)
  qed
  show ?thesis using f1 by (rule fields_no_placeholder) (simp split: if_splits)
qed

lemma replace_in_model_fields:
  assumes f: "fields_as F ip" and r: "replace_in_model mk oe ok ip = Inr ip'"
    and m: "\<And>v. F mk v \<Longrightarrow> MODEL_FIELDS v"
    and c: "\<not> is_placeholder oe" "\<not> is_placeholder ok"
  shows "fields_as (F(mk := no_placeholder)) ip'"
  using f r[unfolded replace_in_model_def]
proof (rule fields_in_truthy_block)
  fix v v' assume a1: "F mk v"
    and a2: "in_truthy_block ''azureOpenAIParameters'' (replace_aoai_params oe ok) v = Inr v'"
  show "no_placeholder v'" by (rule model_block_clean[OF m[OF a1] a2 c])
next
  fix v assume "\<not> truthy v"
  then show "no_placeholder v" by (rule falsy_no_placeholder)
qed

lemma ai_services_block_clean:
  assumes f: "fields_of [(''uri'', may_hold ''<AZURE_ENDPOINT_PLACEHOLDER>''),
                         (''apiKey'', may_hold ''<REDACTED>'')] v"
    and 1: "subst_placeholder ''uri'' ''<AZURE_ENDPOINT_PLACEHOLDER>'' (JStr e) v = Inr s1"
    and 2: "subst_placeholder ''apiKey'' ''<REDACTED>'' (JStr k) s1 = Inr s2"
    and c: "\<not> is_placeholder e" "\<not> is_placeholder k"
  shows "no_placeholder s2"
proof -
  let ?F = "\<lambda>k. case map_of [(''uri'', may_hold ''<AZURE_ENDPOINT_PLACEHOLDER>''),
                (''apiKey'', may_hold ''<REDACTED>'')] k of Some P \<Rightarrow> P | None \<Rightarrow> no_placeholder"
  have f0: "fields_as ?F v" using f by (simp add: fields_of_def)
  have f1: "fields_as (?F(''uri'' := no_placeholder)) s1"
    using f0 1 by (rule fields_subst_placeholder) (simp_all add: may_hold_def c)
  have f2: "fields_as (?F(''uri'' := no_placeholder, ''apiKey'' := no_placeholder)) s2"
    using f1 2 by (rule fields_subst_placeholder) (simp_all add: may_hold_def c)
  show ?thesis using f2 by (rule fields_no_placeholder) (simp split: if_splits)
qed

lemma replace_ai_services_fields:
  assumes f: "fields_as F ip" and r: "replace_ai_services aie aik ip = Inr ip'"
    and m: "\<And>v. F ''aiServices'' v \<Longrightarrow>
              fields_of [(''uri'', may_hold ''<AZURE_ENDPOINT_PLACEHOLDER>''),
                         (''apiKey'', may_hold ''<REDACTED>'')] v"
    and c: "\<And>e. aie = Some e \<Longrightarrow> \<not> is_placeholder e" "\<And>k. aik = Some k \<Longrightarrow> \<not> is_placeholder k"
  shows "fields_as (F(''aiServices'' := no_placeholder)) ip'"
proof (cases "py_in ''aiServices'' ip")
  case (Inl e)
  then show ?thesis using r by (simp add: replace_ai_services_def)
next
  case (Inr present)
  show ?thesis
  proof (cases present)
    case False
    then have "ip' = ip" using r Inr by (simp add: replace_ai_services_def)
    moreover have "\<And>v. lookup_path ip [Key ''aiServices''] = Some v \<Longrightarrow> no_placeholder v"
      using lookup_Key_py_in Inr False by fastforce
    ultimately show ?thesis using fields_unchanged[OF f] by simp
  next
    case True
    show ?thesis
    proof (cases "py_getitem ip ''aiServices''")
      case (Inl e)
      then show ?thesis using r Inr True by (simp add: replace_ai_services_def)
    next
      case g: (Inr v)
      have l: "lookup_path ip [Key ''aiServices''] = Some v"
        using Inr True g by (simp add: py_in_getitem)
      have fk: "F ''aiServices'' v" by (rule fields_lookup[OF f l])
      show ?thesis
      proof (cases "truthy v")
        case False
        then have "ip' = ip" using r Inr True g by (simp add: replace_ai_services_def)
        moreover have "\<And>w. lookup_path ip [Key ''aiServices''] = Some w \<Longrightarrow> no_placeholder w"
          using l falsy_no_placeholder[OF False] by simp
        ultimately show ?thesis using fields_unchanged[OF f] by simp
      next
        case t: True
        show ?thesis
        proof (cases "ai_services_available aie aik")
          case True
          then obtain e k where av: "aie = Some e" "aik = Some k" "e \<noteq> []" "k \<noteq> []"
            using ai_services_availableD by blast
          from r Inr \<open>present\<close> g t av obtain s1 s2 where
            1: "subst_placeholder ''uri'' ''<AZURE_ENDPOINT_PLACEHOLDER>'' (JStr e) v = Inr s1" and
            2: "subst_placeholder ''apiKey'' ''<REDACTED>'' (JStr k) s1 = Inr s2" and
            3: "py_setitem ip ''aiServices'' s2 = Inr ip'"
            by (auto simp add: replace_ai_services_def bind_err_Inr)
          have "no_placeholder s2"
            by (rule ai_services_block_clean[OF m[OF fk] 1 2 c(1)[OF av(1)] c(2)[OF av(2)]])
          with f 3 show ?thesis by (rule fields_setitem)
        next
          case False
          then have 3: "py_setitem ip ''aiServices'' JNull = Inr ip'"
            using r Inr \<open>present\<close> g t
            by (auto simp add: replace_ai_services_def ai_services_available_def split: option.splits)
          have "no_placeholder JNull" by simp
          with f 3 show ?thesis by (rule fields_setitem)
        qed
      qed
    qed
  qed
qed

lemma replace_blob_ingestion_clean:
  assumes f: "fields_of
                [(''embeddingModel'', MODEL_FIELDS),
                 (''chatCompletionModel'', MODEL_FIELDS),
                 (''aiServices'',
                    fields_of [(''uri'', may_hold ''<AZURE_ENDPOINT_PLACEHOLDER>''),
                               (''apiKey'', may_hold ''<REDACTED>'')])] ip"
    and r: "replace_blob_ingestion oe ok aie aik ip = Inr ip'"
    and c: "\<not> is_placeholder oe" "\<not> is_placeholder ok"
    and ca: "\<And>e. aie = Some e \<Longrightarrow> \<not> is_placeholder e" "\<And>k. aik = Some k \<Longrightarrow> \<not> is_placeholder k"
  shows "no_placeholder ip'"
proof -
  let ?F = "\<lambda>k. case map_of
                [(''embeddingModel'', MODEL_FIELDS),
                 (''chatCompletionModel'', MODEL_FIELDS),
                 (''aiServices'',
                    fields_of [(''uri'', may_hold ''<AZURE_ENDPOINT_PLACEHOLDER>''),
                               (''apiKey'', may_hold ''<REDACTED>'')])] k of
              Some P \<Rightarrow> P | None \<Rightarrow> no_placeholder"
  have f0: "fields_as ?F ip" using f by (simp add: fields_of_def)
  from r obtain i1 i2 where
    1: "replace_in_model ''embeddingModel'' oe ok ip = Inr i1" and
    2: "replace_in_model ''chatCompletionModel'' oe ok i1 = Inr i2" and
    3: "replace_ai_services aie aik i2 = Inr ip'"
    unfolding replace_blob_ingestion_def bind_err_Inr by auto
  have f1: "fields_as (?F(''embeddingModel'' := no_placeholder)) i1"
    using f0 1 by (rule replace_in_model_fields) (simp_all add: c)
  have f2: "fields_as (?F(''embeddingModel'' := no_placeholder,
                          ''chatCompletionModel'' := no_placeholder)) i2"
    using f1 2 by (rule replace_in_model_fields) (simp_all add: c)
  have f3: "fields_as (?F(''embeddingModel'' := no_placeholder,
                          ''chatCompletionModel'' := no_placeholder,
                          ''aiServices'' := no_placeholder)) ip'"
    using f2 3 by (rule replace_ai_services_fields) (simp_all add: ca)
  show ?thesis using f3 by (rule fields_no_placeholder) (simp split: if_splits)
qed

lemma connection_string_fields:
  assumes f: "fields_as F bp"
    and g: "py_get bp ''connectionString'' = Inr cs"
    and s: "(if cs \<in> {JStr ''<REDACTED>'', JNull, JStr ''''}
             then py_setitem bp ''connectionString'' (JStr scs) else Inr bp) = Inr b1"
    and m: "\<And>v. F ''connectionString'' v \<Longrightarrow> may_hold ''<REDACTED>'' v"
    and c: "\<not> is_placeholder scs"
  shows "fields_as (F(''connectionString'' := no_placeholder)) b1"
proof (cases "cs \<in> {JStr ''<REDACTED>'', JNull, JStr ''''}")
  case True
  with s have "py_setitem bp ''connectionString'' (JStr scs) = Inr b1" by (simp only: if_True)
  moreover have "no_placeholder (JStr scs)" using c by simp
  ultimately show ?thesis using f by (rule fields_setitem[rotated])
next
  case False
  with s have b1: "b1 = bp" by (simp only: if_False sum.inject)
  have "\<And>w. lookup_path bp [Key ''connectionString''] = Some w \<Longrightarrow> no_placeholder w"
  proof -
    fix w assume l: "lookup_path bp [Key ''connectionString''] = Some w"
    then have "w = cs" using g by (cases bp) (auto simp add: py_get_def split: option.splits)
    then have "w \<noteq> JStr ''<REDACTED>''" using False by simp
    then show "no_placeholder w" using m[OF fields_lookup[OF f l]] by (simp add: may_hold_def)
  qed
  then show ?thesis using fields_unchanged[OF f] b1 by simp
qed

lemma replace_blob_params_clean:
  assumes f: "fields_of
             [(''connectionString'', may_hold ''<REDACTED>''),
              (''containerName'', may_hold ''<BLOB_CONTAINER_PLACEHOLDER>''),
              (''ingestionParameters'',
                 fields_of
                   [(''embeddingModel'', MODEL_FIELDS),
                    (''chatCompletionModel'', MODEL_FIELDS),
                    (''aiServices'',
                       fields_of [(''uri'', may_hold ''<AZURE_ENDPOINT_PLACEHOLDER>''),
                                  (''apiKey'', may_hold ''<REDACTED>'')])])] bp"
    and r: "replace_blob_params oe ok scs bc aie aik bp = Inr bp'"
    and c: "\<not> is_placeholder oe" "\<not> is_placeholder ok"
    and cb: "\<not> is_placeholder scs" "\<not> is_placeholder bc"
    and ca: "\<And>e. aie = Some e \<Longrightarrow> \<not> is_placeholder e" "\<And>k. aik = Some k \<Longrightarrow> \<not> is_placeholder k"
  shows "no_placeholder bp'"
proof -
  let ?F = "\<lambda>k. case map_of
             [(''connectionString'', may_hold ''<REDACTED>''),
              (''containerName'', may_hold ''<BLOB_CONTAINER_PLACEHOLDER>''),
              (''ingestionParameters'',
                 fields_of
                   [(''embeddingModel'', MODEL_FIELDS),
                    (''chatCompletionModel'', MODEL_FIELDS),
                    (''aiServices'',
                       fields_of [(''uri'', may_hold ''<AZURE_ENDPOINT_PLACEHOLDER>''),
                                  (''apiKey'', may_hold ''<REDACTED>'')])])] k of
              Some P \<Rightarrow> P | None \<Rightarrow> no_placeholder"
  have f0: "fields_as ?F bp" using f by (simp add: fields_of_def)
  from r obtain cs b1 b2 where
    0: "py_get bp ''connectionString'' = Inr cs" and
    1: "(if cs \<in> {JStr ''<REDACTED>'', JNull, JStr ''''}
         then py_setitem bp ''connectionString'' (JStr scs) else Inr bp) = Inr b1" and
    2: "subst_placeholder ''containerName'' ''<BLOB_CONTAINER_PLACEHOLDER>'' (JStr bc) b1 = Inr b2" and
    3: "in_truthy_block ''ingestionParameters'' (replace_blob_ingestion oe ok aie aik) b2 = Inr bp'"
    unfolding replace_blob_params_def bind_err_Inr by auto
  have f1: "fields_as (?F(''connectionString'' := no_placeholder)) b1"
    using f0 0 1 by (rule connection_string_fields) (simp_all add: cb)
  have f2: "fields_as (?F(''connectionString'' := no_placeholder,
                          ''containerName'' := no_placeholder)) b2"
    using f1 2 by (rule fields_subst_placeholder) (simp_all add: may_hold_def cb)
  have f3: "fields_as (?F(''connectionString'' := no_placeholder,
                          ''containerName'' := no_placeholder,
                          ''ingestionParameters'' := no_placeholder)) bp'"
    using f2 3
  proof (rule fields_in_truthy_block)
    fix v v'
    assume a1: "(?F(''connectionString'' := no_placeholder, ''containerName'' := no_placeholder))
                  ''ingestionParameters'' v"
      and a2: "replace_blob_ingestion oe ok aie aik v = Inr v'"
    from a1 have "fields_of
                [(''embeddingModel'', MODEL_FIELDS),
                 (''chatCompletionModel'', MODEL_FIELDS),
                 (''aiServices'',
                    fields_of [(''uri'', may_hold ''<AZURE_ENDPOINT_PLACEHOLDER>''),
                               (''apiKey'', may_hold ''<REDACTED>'')])] v" by simp
    then show "no_placeholder v'" using a2 c ca by (rule replace_blob_ingestion_clean)
  next
    fix v assume "\<not> truthy v"
    then show "no_placeholder v" by (rule falsy_no_placeholder)
  qed
  show ?thesis using f3 by (rule fields_no_placeholder) (simp split: if_splits)
qed

lemma replace_indexed_params_clean:
  assumes f: "INDEXED_FIELDS ps" and r: "replace_indexed_params oe ok ps = Inr ps'"
    and c: "\<not> is_placeholder oe" "\<not> is_placeholder ok"
  shows "no_placeholder ps'"
proof -
  let ?G = "\<lambda>k. case map_of [(''embeddingModel'', MODEL_FIELDS)] k of
              Some P \<Rightarrow> P | None \<Rightarrow> no_placeholder"
  let ?F = "\<lambda>k. case map_of
                [(''ingestionParameters'', fields_of [(''embeddingModel'', MODEL_FIELDS)])] k of
              Some P \<Rightarrow> P | None \<Rightarrow> no_placeholder"
  have f0: "fields_as ?F ps" using f by (simp add: INDEXED_FIELDS_def fields_of_def)
  have f1: "fields_as (?F(''ingestionParameters'' := no_placeholder)) ps'"
    using f0 r[unfolded replace_indexed_params_def]
  proof (rule fields_in_truthy_block)
    fix v v'
    assume a1: "?F ''ingestionParameters'' v"
      and a2: "replace_in_model ''embeddingModel'' oe ok v = Inr v'"
    from a1 have g0: "fields_as ?G v" by (simp add: fields_of_def)
    have "fields_as (?G(''embeddingModel'' := no_placeholder)) v'"
      using g0 a2 by (rule replace_in_model_fields) (simp_all add: c)
    then show "no_placeholder v'" by (rule fields_no_placeholder) (simp split: if_splits)
  next
    fix v assume "\<not> truthy v"
    then show "no_placeholder v" by (rule falsy_no_placeholder)
  qed
  show ?thesis using f1 by (rule fields_no_placeholder) (simp split: if_splits)
qed

lemma pop_odata_fields:
  assumes f: "fields_as F d" and r: "pop_odata d = Inr d0"
  shows "fields_as (F(''@odata.context'' := no_placeholder, ''@odata.etag'' := no_placeholder)) d0"
proof -
  from r obtain d1 where 1: "py_pop d ''@odata.context'' = Inr d1"
    and 2: "py_pop d1 ''@odata.etag'' = Inr d0"
    unfolding pop_odata_def bind_err_Inr by auto
  have "fields_as (F(''@odata.context'' := no_placeholder)) d1"
    using f 1 by (rule fields_py_pop)
  then show ?thesis using 2 by (rule fields_py_pop)
qed

lemma replace_ks_clean:
  assumes f: "KS_FIELDS d"
    and r: "replace_placeholders_in_knowledge_source d oe ok scs bc aie aik = Inr d'"
    and c: "\<not> is_placeholder oe" "\<not> is_placeholder ok"
    and cb: "\<not> is_placeholder scs" "\<not> is_placeholder bc"
    and ca: "\<And>e. aie = Some e \<Longrightarrow> \<not> is_placeholder e" "\<And>k. aik = Some k \<Longrightarrow> \<not> is_placeholder k"
  shows "no_placeholder d'"
proof -
  let ?B = "fields_of
             [(''connectionString'', may_hold ''<REDACTED>''),
              (''containerName'', may_hold ''<BLOB_CONTAINER_PLACEHOLDER>''),
              (''ingestionParameters'',
                 fields_of
                   [(''embeddingModel'', MODEL_FIELDS),
                    (''chatCompletionModel'', MODEL_FIELDS),
                    (''aiServices'',
                       fields_of [(''uri'', may_hold ''<AZURE_ENDPOINT_PLACEHOLDER>''),
                                  (''apiKey'', may_hold ''<REDACTED>'')])])]"
  let ?F = "\<lambda>k. case map_of
       [(''@odata.context'', \<lambda>v. True),
        (''@odata.etag'', \<lambda>v. True),
        (''azureBlobParameters'', ?B),
        (''indexedOneLakeParameters'', INDEXED_FIELDS),
        (''indexedSharePointParameters'', INDEXED_FIELDS)] k of
              Some P \<Rightarrow> P | None \<Rightarrow> no_placeholder"
  have f0: "fields_as ?F d" using f by (simp add: KS_FIELDS_def fields_of_def)
  from r obtain d0 d1 d2 where
    0: "pop_odata d = Inr d0" and
    1: "in_truthy_block ''azureBlobParameters'' (replace_blob_params oe ok scs bc aie aik) d0 = Inr d1" and
    2: "in_truthy_block ''indexedOneLakeParameters'' (replace_indexed_params oe ok) d1 = Inr d2" and
    3: "in_truthy_block ''indexedSharePointParameters'' (replace_indexed_params oe ok) d2 = Inr d'"
    unfolding replace_placeholders_in_knowledge_source_def bind_err_Inr by auto
  let ?F0 = "?F(''@odata.context'' := no_placeholder, ''@odata.etag'' := no_placeholder)"
  have g0: "fields_as ?F0 d0" using f0 0 by (rule pop_odata_fields)
  have g1: "fields_as (?F0(''azureBlobParameters'' := no_placeholder)) d1"
    using g0 1
  proof (rule fields_in_truthy_block)
    fix v v'
    assume a1: "?F0 ''azureBlobParameters'' v"
      and a2: "replace_blob_params oe ok scs bc aie aik v = Inr v'"
    from a1 have "?B v" by simp
    then show "no_placeholder v'" using a2 c cb ca by (rule replace_blob_params_clean)
  next
    fix v assume "\<not> truthy v"
    then show "no_placeholder v" by (rule falsy_no_placeholder)
  qed
  have g2: "fields_as (?F0(''azureBlobParameters'' := no_placeholder,
                           ''indexedOneLakeParameters'' := no_placeholder)) d2"
    using g1 2
  proof (rule fields_in_truthy_block)
    fix v v'
    assume a1: "(?F0(''azureBlobParameters'' := no_placeholder)) ''indexedOneLakeParameters'' v"
      and a2: "replace_indexed_params oe ok v = Inr v'"
    from a1 have "INDEXED_FIELDS v" by simp
    then show "no_placeholder v'" using a2 c by (rule replace_indexed_params_clean)
  next
    fix v assume "\<not> truthy v"
    then show "no_placeholder v" by (rule falsy_no_placeholder)
  qed
  have g3: "fields_as (?F0(''azureBlobParameters'' := no_placeholder,
                           ''indexedOneLakeParameters'' := no_placeholder,
                           ''indexedSharePointParameters'' := no_placeholder)) d'"
    using g2 3
  proof (rule fields_in_truthy_block)
    fix v v'
    assume a1: "(?F0(''azureBlobParameters'' := no_placeholder,
                     ''indexedOneLakeParameters'' := no_placeholder))
                  ''indexedSharePointParameters'' v"
      and a2: "replace_indexed_params oe ok v = Inr v'"
    from a1 have "INDEXED_FIELDS v" by simp
    then show "no_placeholder v'" using a2 c by (rule replace_indexed_params_clean)
  next
    fix v assume "\<not> truthy v"
    then show "no_placeholder v" by (rule falsy_no_placeholder)
  qed
  show ?thesis using g3 by (rule fields_no_placeholder) (simp split: if_splits)
qed

lemma map_err_all:
  assumes "map_err f xs = Inr ys" and "\<forall>x \<in> set xs. P x"
    and "\<And>x y. P x \<Longrightarrow> f x = Inr y \<Longrightarrow> Q y"
  shows "\<forall>y \<in> set ys. Q y"
  using assms(1,2)
proof (induction xs arbitrary: ys)
  case Nil
  then show ?case by simp
next
  case (Cons x xs)
  then show ?case by (auto simp add: bind_err_Inr assms(3))
qed

lemma replace_in_models_clean:
  assumes f: "each_item MODEL_FIELDS ms" and r: "replace_in_models oe ok ms = Inr ms'"
    and c: "\<not> is_placeholder oe" "\<not> is_placeholder ok"
  shows "no_placeholder ms'"
proof -
  let ?f = "in_truthy_block ''azureOpenAIParameters'' (replace_aoai_params oe ok)"
  from r obtain items items' where
    1: "py_iter ms = Inr items" and 2: "map_err ?f items = Inr items'" and
    3: "ms' = (case ms of JArr xs \<Rightarrow> JArr items' | _ \<Rightarrow> ms)"
    unfolding replace_in_models_def bind_err_Inr by auto
  show ?thesis
  proof (cases ms)
    case (JArr xs)
    then have m: "map_err ?f xs = Inr items'" using 1 2 by simp
    have a: "\<forall>x \<in> set xs. MODEL_FIELDS x" using f JArr by (simp add: each_item_def)
    have "\<forall>y \<in> set items'. no_placeholder y"
      using m a
    proof (rule map_err_all)
      fix x y assume "MODEL_FIELDS x" "?f x = Inr y"
      then show "no_placeholder y" using c by (rule model_block_clean)
    qed
    then show ?thesis using 3 JArr by simp
  qed (use f 3 in \<open>simp_all add: each_item_def\<close>)
qed

lemma replace_kb_clean:
  assumes f: "KB_FIELDS d"
    and r: "replace_placeholders_in_knowledge_base d oe ok = Inr d'"
    and c: "\<not> is_placeholder oe" "\<not> is_placeholder ok"
  shows "no_placeholder d'"
proof -
  let ?F = "\<lambda>k. case map_of
       [(''@odata.context'', \<lambda>v. True),
        (''@odata.etag'', \<lambda>v. True),
        (''models'', each_item MODEL_FIELDS),
        (''inferenceParameters'', MODEL_FIELDS)] k of
              Some P \<Rightarrow> P | None \<Rightarrow> no_placeholder"
  have f0: "fields_as ?F d" using f by (simp add: KB_FIELDS_def fields_of_def)
  from r obtain d0 d1 where
    0: "pop_odata d = Inr d0" and
    1: "in_truthy_block ''models'' (replace_in_models oe ok) d0 = Inr d1" and
    2: "in_truthy_block ''inferenceParameters''
          (in_block ''azureOpenAIParameters'' (replace_aoai_params oe ok)) d1 = Inr d'"
    unfolding replace_placeholders_in_knowledge_base_def bind_err_Inr by auto
  let ?F0 = "?F(''@odata.context'' := no_placeholder, ''@odata.etag'' := no_placeholder)"
  have g0: "fields_as ?F0 d0" using f0 0 by (rule pop_odata_fields)
  have g1: "fields_as (?F0(''models'' := no_placeholder)) d1"
    using g0 1
  proof (rule fields_in_truthy_block)
    fix v v'
    assume a1: "?F0 ''models'' v" and a2: "replace_in_models oe ok v = Inr v'"
    from a1 have "each_item MODEL_FIELDS v" by simp
    then show "no_placeholder v'" using a2 c by (rule replace_in_models_clean)
  next
    fix v assume "\<not> truthy v"
    then show "no_placeholder v" by (rule falsy_no_placeholder)
  qed
  have g2: "fields_as (?F0(''models'' := no_placeholder, ''inferenceParameters'' := no_placeholder)) d'"
    using g1 2
  proof (rule fields_in_truthy_block)
    fix v v'
    assume a1: "(?F0(''models'' := no_placeholder)) ''inferenceParameters'' v"
      and a2: "in_block ''azureOpenAIParameters'' (replace_aoai_params oe ok) v = Inr v'"
    from a1 have "MODEL_FIELDS v" by simp
    then show "no_placeholder v'" using a2 c by (rule model_in_block_clean)
  next
    fix v assume "\<not> truthy v"
    then show "no_placeholder v" by (rule falsy_no_placeholder)
  qed
  show ?thesis using g2 by (rule fields_no_placeholder) (simp split: if_splits)
qed

lemmas placeholder_eval =
  is_placeholder_def REDACTED_PLACEHOLDER_def URL_PLACEHOLDER_def CONTAINER_PLACEHOLDER_def

lemmas fields_eval =
  KS_FIELDS_def KB_FIELDS_def INDEXED_FIELDS_def MODEL_FIELDS_def AOAI_FIELDS_def
  fields_of_def fields_as_def each_item_def may_hold_def

lemmas sanitize_eval =
  sanitize_dict_def sanitize_list_def sanitize_value_def should_redact_key_def
  should_redact_url_key_def is_azure_url_def re_match_azure_def lower_def lower_char_def
  remove_char_def SENSITIVE_KEYS_def URL_KEYS_def AZURE_URL_DOMAINS_def is_label_char_def
  is_legacy_container_def LEGACY_CONTAINER_NAMES_def REDACTED_PLACEHOLDER_def
  URL_PLACEHOLDER_def CONTAINER_PLACEHOLDER_def

text \<open>
  Claim C1, as stated, fails: the Sanitizer replaces an Azure URL under any key, the
  Restorer looks for tokens in a fixed list of fields only. A sanitized document with a
  token elsewhere still has it after a restore with every credential supplied.
\<close>

theorem restore_leaves_placeholder_counterexample:
  "sanitize_dict
     [(''name'', JStr ''ks1''), (''kind'', JStr ''searchIndex''),
      (''description'', JStr ''https://docs.blob.core.windows.net/manuals''),
      (''searchIndexParameters'', JObj [(''searchIndexName'', JStr ''idx1'')])] []
   = [(''name'', JStr ''ks1''), (''kind'', JStr ''searchIndex''),
      (''description'', JStr ''<AZURE_ENDPOINT_PLACEHOLDER>''),
      (''searchIndexParameters'', JObj [(''searchIndexName'', JStr ''idx1'')])]
   \<and> replace_placeholders_in_knowledge_source
       (JObj [(''name'', JStr ''ks1''), (''kind'', JStr ''searchIndex''),
              (''description'', JStr ''<AZURE_ENDPOINT_PLACEHOLDER>''),
              (''searchIndexParameters'', JObj [(''searchIndexName'', JStr ''idx1'')])])
       ''https://oai.openai.azure.com'' ''key1'' ''conn1'' ''foundry-iq-data''
       (Some ''https://ais.cognitiveservices.azure.com'') (Some ''key2'')
     = Inr (JObj [(''name'', JStr ''ks1''), (''kind'', JStr ''searchIndex''),
              (''description'', JStr ''<AZURE_ENDPOINT_PLACEHOLDER>''),
              (''searchIndexParameters'', JObj [(''searchIndexName'', JStr ''idx1'')])])
   \<and> \<not> no_placeholder
         (JObj [(''name'', JStr ''ks1''), (''kind'', JStr ''searchIndex''),
              (''description'', JStr ''<AZURE_ENDPOINT_PLACEHOLDER>''),
              (''searchIndexParameters'', JObj [(''searchIndexName'', JStr ''idx1'')])])"
proof (intro conjI)
  show "sanitize_dict
     [(''name'', JStr ''ks1''), (''kind'', JStr ''searchIndex''),
      (''description'', JStr ''https://docs.blob.core.windows.net/manuals''),
      (''searchIndexParameters'', JObj [(''searchIndexName'', JStr ''idx1'')])] []
   = [(''name'', JStr ''ks1''), (''kind'', JStr ''searchIndex''),
      (''description'', JStr ''<AZURE_ENDPOINT_PLACEHOLDER>''),
      (''searchIndexParameters'', JObj [(''searchIndexName'', JStr ''idx1'')])]"
    by (simp add: sanitize_eval)
  show "replace_placeholders_in_knowledge_source
       (JObj [(''name'', JStr ''ks1''), (''kind'', JStr ''searchIndex''),
              (''description'', JStr ''<AZURE_ENDPOINT_PLACEHOLDER>''),
              (''searchIndexParameters'', JObj [(''searchIndexName'', JStr ''idx1'')])])
       ''https://oai.openai.azure.com'' ''key1'' ''conn1'' ''foundry-iq-data''
       (Some ''https://ais.cognitiveservices.azure.com'') (Some ''key2'')
     = Inr (JObj [(''name'', JStr ''ks1''), (''kind'', JStr ''searchIndex''),
              (''description'', JStr ''<AZURE_ENDPOINT_PLACEHOLDER>''),
              (''searchIndexParameters'', JObj [(''searchIndexName'', JStr ''idx1'')])])"
    by (simp add: restore_eval)
  show "\<not> no_placeholder
         (JObj [(''name'', JStr ''ks1''), (''kind'', JStr ''searchIndex''),
              (''description'', JStr ''<AZURE_ENDPOINT_PLACEHOLDER>''),
              (''searchIndexParameters'', JObj [(''searchIndexName'', JStr ''idx1'')])])"
    by (simp add: placeholder_eval)
qed

text \<open>
  Claim C1, amended. For a document whose placeholder tokens sit only in the fields listed
  in \<open>KS_FIELDS\<close> for a knowledge source and in \<open>KB_FIELDS\<close> for a knowledge base, each
  holding the token the Restorer looks for there, a restore that returns, with credentials
  that are not themselves tokens, leaves no placeholder token at any nesting level. The
  statement is about documents with tokens in these fields only; about a token in another
  field it says nothing.
\<close>

theorem restore_leaves_no_placeholder:
  "(KS_FIELDS d
      \<and> replace_placeholders_in_knowledge_source d oe ok scs bc aie aik = Inr d'
      \<and> \<not> is_placeholder oe \<and> \<not> is_placeholder ok \<and> \<not> is_placeholder scs \<and> \<not> is_placeholder bc
      \<and> (\<forall>e. aie = Some e \<longrightarrow> \<not> is_placeholder e) \<and> (\<forall>k. aik = Some k \<longrightarrow> \<not> is_placeholder k)
    \<longrightarrow> no_placeholder d')
   \<and> (KB_FIELDS kb
      \<and> replace_placeholders_in_knowledge_base kb oe ok = Inr kb'
      \<and> \<not> is_placeholder oe \<and> \<not> is_placeholder ok
    \<longrightarrow> no_placeholder kb')"
proof (intro conjI impI)
  assume a: "KS_FIELDS d
      \<and> replace_placeholders_in_knowledge_source d oe ok scs bc aie aik = Inr d'
      \<and> \<not> is_placeholder oe \<and> \<not> is_placeholder ok \<and> \<not> is_placeholder scs \<and> \<not> is_placeholder bc
      \<and> (\<forall>e. aie = Some e \<longrightarrow> \<not> is_placeholder e) \<and> (\<forall>k. aik = Some k \<longrightarrow> \<not> is_placeholder k)"
  then have f: "KS_FIELDS d"
    and r: "replace_placeholders_in_knowledge_source d oe ok scs bc aie aik = Inr d'"
    and c: "\<not> is_placeholder oe" "\<not> is_placeholder ok" "\<not> is_placeholder scs" "\<not> is_placeholder bc"
    and ca: "\<And>e. aie = Some e \<Longrightarrow> \<not> is_placeholder e" "\<And>k. aik = Some k \<Longrightarrow> \<not> is_placeholder k"
    by simp_all
  show "no_placeholder d'" using f r c ca by (rule replace_ks_clean)
next
  assume a: "KB_FIELDS kb
      \<and> replace_placeholders_in_knowledge_base kb oe ok = Inr kb'
      \<and> \<not> is_placeholder oe \<and> \<not> is_placeholder ok"
  then have f: "KB_FIELDS kb" and r: "replace_placeholders_in_knowledge_base kb oe ok = Inr kb'"
    and c: "\<not> is_placeholder oe" "\<not> is_placeholder ok"
    by simp_all
  show "no_placeholder kb'" using f r c by (rule replace_kb_clean)
qed

theorem restore_leaves_no_placeholder_witness:
  "KS_FIELDS
     (JObj [(''@odata.context'', JStr ''<AZURE_ENDPOINT_PLACEHOLDER>''), (''name'', JStr ''ks1''),
            (''kind'', JStr ''azureBlob''),
            (''azureBlobParameters'',
               JObj [(''connectionString'', JStr ''<REDACTED>''),
                     (''containerName'', JStr ''<BLOB_CONTAINER_PLACEHOLDER>''),
                     (''ingestionParameters'',
                        JObj [(''embeddingModel'',
                                 JObj [(''azureOpenAIParameters'',
                                    JObj [(''resourceUri'', JStr ''<AZURE_ENDPOINT_PLACEHOLDER>''),
                                          (''apiKey'', JStr ''<REDACTED>'')])]),
                              (''aiServices'',
                                 JObj [(''uri'', JStr ''<AZURE_ENDPOINT_PLACEHOLDER>''),
                                       (''apiKey'', JStr ''<REDACTED>'')])])])])
   \<and> replace_placeholders_in_knowledge_source
       (JObj [(''@odata.context'', JStr ''<AZURE_ENDPOINT_PLACEHOLDER>''), (''name'', JStr ''ks1''),
            (''kind'', JStr ''azureBlob''),
            (''azureBlobParameters'',
               JObj [(''connectionString'', JStr ''<REDACTED>''),
                     (''containerName'', JStr ''<BLOB_CONTAINER_PLACEHOLDER>''),
                     (''ingestionParameters'',
                        JObj [(''embeddingModel'',
                                 JObj [(''azureOpenAIParameters'',
                                    JObj [(''resourceUri'', JStr ''<AZURE_ENDPOINT_PLACEHOLDER>''),
                                          (''apiKey'', JStr ''<REDACTED>'')])]),
                              (''aiServices'',
                                 JObj [(''uri'', JStr ''<AZURE_ENDPOINT_PLACEHOLDER>''),
                                       (''apiKey'', JStr ''<REDACTED>'')])])])])
       ''https://oai.openai.azure.com'' ''key1'' ''conn1'' ''foundry-iq-data''
       (Some ''https://ais.cognitiveservices.azure.com'') (Some ''key2'')
     = Inr (JObj [(''name'', JStr ''ks1''), (''kind'', JStr ''azureBlob''),
            (''azureBlobParameters'',
               JObj [(''connectionString'', JStr ''conn1''),
                     (''containerName'', JStr ''foundry-iq-data''),
                     (''ingestionParameters'',
                        JObj [(''embeddingModel'',
                                 JObj [(''azureOpenAIParameters'',
                                    JObj [(''resourceUri'', JStr ''https://oai.openai.azure.com''),
                                          (''apiKey'', JStr ''key1'')])]),
                              (''aiServices'',
                                 JObj [(''uri'', JStr ''https://ais.cognitiveservices.azure.com''),
                                       (''apiKey'', JStr ''key2'')])])])])
   \<and> no_placeholder
       (JObj [(''name'', JStr ''ks1''), (''kind'', JStr ''azureBlob''),
            (''azureBlobParameters'',
               JObj [(''connectionString'', JStr ''conn1''),
                     (''containerName'', JStr ''foundry-iq-data''),
                     (''ingestionParameters'',
                        JObj [(''embeddingModel'',
                                 JObj [(''azureOpenAIParameters'',
                                    JObj [(''resourceUri'', JStr ''https://oai.openai.azure.com''),
                                          (''apiKey'', JStr ''key1'')])]),
                              (''aiServices'',
                                 JObj [(''uri'', JStr ''https://ais.cognitiveservices.azure.com''),
                                       (''apiKey'', JStr ''key2'')])])])])
   \<and> KB_FIELDS
       (JObj [(''name'', JStr ''kb1''),
              (''models'', JArr [JObj [(''azureOpenAIParameters'',
                  JObj [(''resourceUri'', JStr ''<AZURE_ENDPOINT_PLACEHOLDER>''),
                        (''apiKey'', JStr ''<REDACTED>'')])]])])
   \<and> replace_placeholders_in_knowledge_base
       (JObj [(''name'', JStr ''kb1''),
              (''models'', JArr [JObj [(''azureOpenAIParameters'',
                  JObj [(''resourceUri'', JStr ''<AZURE_ENDPOINT_PLACEHOLDER>''),
                        (''apiKey'', JStr ''<REDACTED>'')])]])])
       ''https://oai.openai.azure.com'' ''key1''
     = Inr (JObj [(''name'', JStr ''kb1''),
              (''models'', JArr [JObj [(''azureOpenAIParameters'',
                  JObj [(''resourceUri'', JStr ''https://oai.openai.azure.com''),
                        (''apiKey'', JStr ''key1'')])]])])
   \<and> no_placeholder
       (JObj [(''name'', JStr ''kb1''),
              (''models'', JArr [JObj [(''azureOpenAIParameters'',
                  JObj [(''resourceUri'', JStr ''https://oai.openai.azure.com''),
                        (''apiKey'', JStr ''key1'')])]])])"
proof -
  let ?d = "JObj [(''@odata.context'', JStr ''<AZURE_ENDPOINT_PLACEHOLDER>''), (''name'', JStr ''ks1''),
            (''kind'', JStr ''azureBlob''),
            (''azureBlobParameters'',
               JObj [(''connectionString'', JStr ''<REDACTED>''),
                     (''containerName'', JStr ''<BLOB_CONTAINER_PLACEHOLDER>''),
                     (''ingestionParameters'',
                        JObj [(''embeddingModel'',
                                 JObj [(''azureOpenAIParameters'',
                                    JObj [(''resourceUri'', JStr ''<AZURE_ENDPOINT_PLACEHOLDER>''),
                                          (''apiKey'', JStr ''<REDACTED>'')])]),
                              (''aiServices'',
                                 JObj [(''uri'', JStr ''<AZURE_ENDPOINT_PLACEHOLDER>''),
                                       (''apiKey'', JStr ''<REDACTED>'')])])])]"
  let ?d' = "JObj [(''name'', JStr ''ks1''), (''kind'', JStr ''azureBlob''),
            (''azureBlobParameters'',
               JObj [(''connectionString'', JStr ''conn1''),
                     (''containerName'', JStr ''foundry-iq-data''),
                     (''ingestionParameters'',
                        JObj [(''embeddingModel'',
                                 JObj [(''azureOpenAIParameters'',
                                    JObj [(''resourceUri'', JStr ''https://oai.openai.azure.com''),
                                          (''apiKey'', JStr ''key1'')])]),
                              (''aiServices'',
                                 JObj [(''uri'', JStr ''https://ais.cognitiveservices.azure.com''),
                                       (''apiKey'', JStr ''key2'')])])])]"
  let ?kb = "JObj [(''name'', JStr ''kb1''),
              (''models'', JArr [JObj [(''azureOpenAIParameters'',
                  JObj [(''resourceUri'', JStr ''<AZURE_ENDPOINT_PLACEHOLDER>''),
                        (''apiKey'', JStr ''<REDACTED>'')])]])]"
  let ?kb' = "JObj [(''name'', JStr ''kb1''),
              (''models'', JArr [JObj [(''azureOpenAIParameters'',
                  JObj [(''resourceUri'', JStr ''https://oai.openai.azure.com''),
                        (''apiKey'', JStr ''key1'')])]])]"
  have h1: "KS_FIELDS ?d" by (simp add: fields_eval placeholder_eval)
  have h2: "replace_placeholders_in_knowledge_source ?d
       ''https://oai.openai.azure.com'' ''key1'' ''conn1'' ''foundry-iq-data''
       (Some ''https://ais.cognitiveservices.azure.com'') (Some ''key2'') = Inr ?d'"
    by (simp add: restore_eval)
  have h3: "\<not> is_placeholder ''https://oai.openai.azure.com'' \<and> \<not> is_placeholder ''key1''
      \<and> \<not> is_placeholder ''conn1'' \<and> \<not> is_placeholder ''foundry-iq-data''
      \<and> (\<forall>e. Some ''https://ais.cognitiveservices.azure.com'' = Some e \<longrightarrow> \<not> is_placeholder e)
      \<and> (\<forall>k. Some ''key2'' = Some k \<longrightarrow> \<not> is_placeholder k)"
    by (simp add: placeholder_eval)
  have h4: "KB_FIELDS ?kb" by (simp add: fields_eval placeholder_eval)
  have h5: "replace_placeholders_in_knowledge_base ?kb ''https://oai.openai.azure.com'' ''key1''
      = Inr ?kb'"
    by (simp add: restore_eval)
  have h6: "\<not> is_placeholder ''https://oai.openai.azure.com'' \<and> \<not> is_placeholder ''key1''"
    by (simp add: placeholder_eval)
  note c1 = restore_leaves_no_placeholder[THEN conjunct1, rule_format,
      OF conjI[OF h1 conjI[OF h2 h3]]]
  note c2 = restore_leaves_no_placeholder[THEN conjunct2, rule_format,
      OF conjI[OF h4 conjI[OF h5 h6]]]
  show ?thesis by (intro conjI) (rule h1 h2 h4 h5 c1 c2)+
qed

text \<open>
  The fields of \<open>KS_FIELDS\<close> are those the code restores. For \<^verbatim>\<open>indexedOneLakeParameters\<close>
  and \<^verbatim>\<open>indexedSharePointParameters\<close>, which the source calls of similar structure, these
  are the fields of the embedding model only: the chat-completion model, which the blob
  branch restores, keeps its tokens there.
\<close>

lemma indexed_chat_model_not_restored:
  "replace_placeholders_in_knowledge_source
     (JObj [(''name'', JStr ''ks2''), (''kind'', JStr ''indexedOneLake''),
            (''indexedOneLakeParameters'',
               JObj [(''ingestionParameters'',
                  JObj [(''embeddingModel'',
                           JObj [(''azureOpenAIParameters'',
                              JObj [(''resourceUri'', JStr ''<AZURE_ENDPOINT_PLACEHOLDER>''),
                                    (''apiKey'', JStr ''<REDACTED>'')])]),
                        (''chatCompletionModel'',
                           JObj [(''azureOpenAIParameters'',
                              JObj [(''resourceUri'', JStr ''<AZURE_ENDPOINT_PLACEHOLDER>''),
                                    (''apiKey'', JStr ''<REDACTED>'')])])])])])
     ''https://oai.openai.azure.com'' ''key1'' ''conn1'' ''foundry-iq-data''
     (Some ''https://ais.cognitiveservices.azure.com'') (Some ''key2'')
   = Inr (JObj [(''name'', JStr ''ks2''), (''kind'', JStr ''indexedOneLake''),
            (''indexedOneLakeParameters'',
               JObj [(''ingestionParameters'',
                  JObj [(''embeddingModel'',
                           JObj [(''azureOpenAIParameters'',
                              JObj [(''resourceUri'', JStr ''https://oai.openai.azure.com''),
                                    (''apiKey'', JStr ''key1'')])]),
                        (''chatCompletionModel'',
                           JObj [(''azureOpenAIParameters'',
                              JObj [(''resourceUri'', JStr ''<AZURE_ENDPOINT_PLACEHOLDER>''),
                                    (''apiKey'', JStr ''<REDACTED>'')])])])])])"
  by (simp add: restore_eval)

section \<open>Properties of the Graph Exporter\<close>

lemma py_eq_refl: "py_eq x x"
  by (cases x) (simp_all add: py_eq_def)

lemma py_eq_numbers:
  "py_eq (JBool True) (JInt 1)" "py_eq (JInt 1) (JFloat 1 0)" "py_eq (JFloat 2 (- 1)) (JBool True)"
  "\<not> py_eq (JInt 1) (JStr ''1'')" "\<not> py_eq JNull (JBool False)" "\<not> py_eq (JInt 1) (JInt 2)"
  by (simp_all add: py_eq_def)

lemma py_eq_JStr: "py_eq x (JStr n) \<longleftrightarrow> x = JStr n"
  by (cases x) (auto simp add: py_eq_def)

lemma py_in_set_JStr: "py_in_set (JStr n) S \<longleftrightarrow> JStr n \<in> S"
  by (simp add: py_in_set_def py_eq_JStr)

lemma py_in_set_member: "x \<in> S \<Longrightarrow> py_in_set x S"
  using py_eq_refl by (auto simp add: py_in_set_def)

lemma final_state_simps [simp]:
  "final_state (Inr s) = s" "final_state (Inl (e, s)) = s"
  by (simp_all add: final_state_def)

lemma ks_view_emit:
  "\<not> is_ks_event e \<Longrightarrow> ks_view (emit e s) = ks_view s"
  by (simp add: ks_view_def emit_def)

lemma ks_view_emit_ks:
  "is_ks_event e \<Longrightarrow> ks_view (emit e s) = (fst (ks_view s), snd (ks_view s) @ [e])"
  by (simp add: ks_view_def emit_def)

lemma for_each_final:
  assumes "\<And>x s. x \<in> set xs \<Longrightarrow> P s \<Longrightarrow> P (final_state (body x s))" and "P s"
  shows "P (final_state (for_each body xs s))"
  using assms
proof (induction xs arbitrary: s)
  case Nil
  then show ?case by simp
next
  case (Cons x xs)
  show ?case
  proof (cases "body x s")
    case (Inl es)
    then have "P (snd es)" using Cons.prems(1)[of x s] Cons.prems(2) by (cases es) simp
    then show ?thesis using Inl by (cases es) simp
  next
    case (Inr s')
    then have "P s'" using Cons.prems(1)[of x s] Cons.prems(2) by simp
    then have "P (final_state (for_each body xs s'))"
      using Cons.IH Cons.prems(1) by simp
    then show ?thesis using Inr by simp
  qed
qed

lemma for_each_view:
  assumes "\<And>x s. x \<in> set xs \<Longrightarrow> ks_view (final_state (body x s)) = ks_view s"
  shows "ks_view (final_state (for_each body xs s)) = ks_view s"
proof -
  have "(\<lambda>t. ks_view t = ks_view s) (final_state (for_each body xs s))"
    by (rule for_each_final) (simp_all add: assms)
  then show ?thesis .
qed

lemma try_py_view:
  assumes "\<And>x. m = Inr x \<Longrightarrow> ks_view (final_state (f x)) = v" and "ks_view s = v"
  shows "ks_view (final_state (try_py m s f)) = v"
  using assms by (cases m) (simp_all add: try_py_def)

lemma http_get_view:
  assumes "kind \<noteq> KnowledgeSource"
    and "\<And>doc s1. ks_view s1 = ks_view s \<Longrightarrow> ks_view (final_state (f doc s1)) = ks_view s"
  shows "ks_view (final_state (http_get svc kind name s f)) = ks_view s"
proof -
  have e: "ks_view (emit (Get kind name) s) = ks_view s"
    using assms(1) by (simp add: ks_view_emit)
  show ?thesis
    by (cases "svc kind name") (simp_all add: http_get_def Let_def e assms(2))
qed

lemma ks_view_dump: "kind \<noteq> KnowledgeSource \<Longrightarrow> ks_view (dump kind n doc s) = ks_view s"
  by (simp add: dump_def ks_view_emit)

lemma ks_view_print: "ks_view (emit (Print m) s) = ks_view s"
  by (simp add: ks_view_emit)

lemma dump_synmap_view: "ks_view (final_state (dump_synmap svc sm s)) = ks_view s"
proof -
  have "ks_view (final_state (http_get svc SynonymMap sm s (\<lambda>syn s1.
             let s2 = (if truthy syn then dump SynonymMap sm syn s1 else s1)
             in Inr (s2\<lparr>seen_synmaps := insert sm (seen_synmaps s2)\<rparr>)))) = ks_view s"
    by (rule http_get_view) (simp_all add: Let_def ks_view_def dump_def emit_def)
  then show ?thesis by (simp add: dump_synmap_def)
qed

lemma dump_index_view: "ks_view (final_state (dump_index svc n s)) = ks_view s"
proof -
  have "ks_view (final_state (http_get svc Index n s (\<lambda>index s1.
             if truthy index then
               (let s2 = dump Index n index s1;
                    s3 = s2\<lparr>seen_indexes := insert n (seen_indexes s2)\<rparr>
                in try_py (py_get_default index ''synonymMaps'' (JArr [])) s3 (\<lambda>sms.
                   try_py (py_iter sms) s3 (\<lambda>items.
                     for_each (dump_synmap svc) items s3)))
             else Inr (emit (Print (ResourceNotFound Index n)) s1)))) = ks_view s"
  proof (rule http_get_view)
    fix doc s1 assume v: "ks_view s1 = ks_view s"
    let ?s3 = "(dump Index n doc s1)\<lparr>seen_indexes := insert n (seen_indexes (dump Index n doc s1))\<rparr>"
    have v3: "ks_view ?s3 = ks_view s"
      using v by (simp add: ks_view_def dump_def emit_def)
    have "ks_view (final_state (try_py (py_get_default doc ''synonymMaps'' (JArr [])) ?s3 (\<lambda>sms.
                   try_py (py_iter sms) ?s3 (\<lambda>items.
                     for_each (dump_synmap svc) items ?s3)))) = ks_view s"
      by (intro try_py_view v3) (simp add: for_each_view dump_synmap_view v3)
    then show "ks_view (final_state (if truthy doc then
               (let s2 = dump Index n doc s1;
                    s3 = s2\<lparr>seen_indexes := insert n (seen_indexes s2)\<rparr>
                in try_py (py_get_default doc ''synonymMaps'' (JArr [])) s3 (\<lambda>sms.
                   try_py (py_iter sms) s3 (\<lambda>items.
                     for_each (dump_synmap svc) items s3)))
             else Inr (emit (Print (ResourceNotFound Index n)) s1))) = ks_view s"
      using v by (simp add: Let_def ks_view_print)
  qed simp
  then show ?thesis by (simp add: dump_index_def)
qed

lemma dump_dependent_view:
  assumes "kind \<noteq> KnowledgeSource"
    and "\<And>n t. ks_view (mark n t) = ks_view t"
  shows "ks_view (final_state (dump_dependent svc kind seen mark name s)) = ks_view s"
proof -
  have "ks_view (final_state (http_get svc kind name s (\<lambda>doc s1.
             if truthy doc then Inr (mark name (dump kind name doc s1))
             else Inr (emit (Print (ResourceNotFound kind name)) s1)))) = ks_view s"
    using assms(1)
    by (rule http_get_view) (simp add: assms ks_view_dump ks_view_print)
  then show ?thesis by (simp add: dump_dependent_def)
qed

lemma bind_err_view:
  assumes "ks_view (final_state m) = v"
    and "\<And>s1. m = Inr s1 \<Longrightarrow> ks_view (final_state (f s1)) = v"
  shows "ks_view (final_state (bind_err m f)) = v"
  using assms by (cases m) (auto simp add: bind_err_def)

lemma dump_resources_view: "ks_view (final_state (dump_resources svc r s)) = ks_view s"
proof -
  have m: "\<And>n t. ks_view (t\<lparr>seen_indexers := insert n (seen_indexers t)\<rparr>) = ks_view t"
    "\<And>n t. ks_view (t\<lparr>seen_datasources := insert n (seen_datasources t)\<rparr>) = ks_view t"
    "\<And>n t. ks_view (t\<lparr>seen_skillsets := insert n (seen_skillsets t)\<rparr>) = ks_view t"
    by (simp_all add: ks_view_def)
  show ?thesis
    unfolding dump_resources_def
  proof (intro bind_err_view)
    show "ks_view (final_state (dump_index svc (indexName r) s)) = ks_view s"
      by (rule dump_index_view)
  next
    fix s1 assume "dump_index svc (indexName r) s = Inr s1"
    then have "ks_view s1 = ks_view s" using dump_index_view[of svc "indexName r" s] by simp
    then show "ks_view (final_state (dump_dependent svc Indexer seen_indexers
                 (\<lambda>n t. t\<lparr>seen_indexers := insert n (seen_indexers t)\<rparr>) (indexerName r) s1)) = ks_view s"
      by (simp add: dump_dependent_view m)
  next
    fix s1 s2 assume "dump_index svc (indexName r) s = Inr s1"
      and "dump_dependent svc Indexer seen_indexers
                 (\<lambda>n t. t\<lparr>seen_indexers := insert n (seen_indexers t)\<rparr>) (indexerName r) s1 = Inr s2"
    then have "ks_view s2 = ks_view s"
      using dump_index_view[of svc "indexName r" s]
        dump_dependent_view[of Indexer "\<lambda>n t. t\<lparr>seen_indexers := insert n (seen_indexers t)\<rparr>"
          svc seen_indexers "indexerName r" s1]
      by (simp add: m)
    then show "ks_view (final_state (dump_dependent svc DataSource seen_datasources
                 (\<lambda>n t. t\<lparr>seen_datasources := insert n (seen_datasources t)\<rparr>) (dataSourceName r) s2)) = ks_view s"
      by (simp add: dump_dependent_view m)
  next
    fix s1 s2 s3 assume "dump_index svc (indexName r) s = Inr s1"
      and "dump_dependent svc Indexer seen_indexers
                 (\<lambda>n t. t\<lparr>seen_indexers := insert n (seen_indexers t)\<rparr>) (indexerName r) s1 = Inr s2"
      and "dump_dependent svc DataSource seen_datasources
                 (\<lambda>n t. t\<lparr>seen_datasources := insert n (seen_datasources t)\<rparr>) (dataSourceName r) s2 = Inr s3"
    then have "ks_view s3 = ks_view s"
      using dump_index_view[of svc "indexName r" s]
        dump_dependent_view[of Indexer "\<lambda>n t. t\<lparr>seen_indexers := insert n (seen_indexers t)\<rparr>"
          svc seen_indexers "indexerName r" s1]
        dump_dependent_view[of DataSource "\<lambda>n t. t\<lparr>seen_datasources := insert n (seen_datasources t)\<rparr>"
          svc seen_datasources "dataSourceName r" s2]
      by (simp add: m)
    then show "ks_view (final_state (dump_dependent svc Skillset seen_skillsets
         (\<lambda>n t. t\<lparr>seen_skillsets := insert n (seen_skillsets t)\<rparr>) (skillsetName r) s3)) = ks_view s"
      by (simp add: dump_dependent_view m)
  qed
qed

lemma dump_ks_ref_view:
  "ks_view (final_state (dump_ks_ref svc ks_ref s)) = ks_step svc ks_ref (ks_view s)"
proof (cases "py_get ks_ref ''name''")
  case (Inl e)
  then show ?thesis by (simp add: dump_ks_ref_def try_py_def ks_step_def)
next
  case (Inr n)
  show ?thesis
  proof (cases "\<not> truthy n \<or> \<not> hashable n \<or> py_in_set n (seen_ks s)")
    case True
    then show ?thesis using Inr
      by (auto simp add: dump_ks_ref_def try_py_def ks_step_def ks_view_def)
  next
    case False
    let ?s0 = "emit (Print (KsHeader n)) s"
    let ?s1 = "emit (Get KnowledgeSource n) ?s0"
    have v1: "ks_view ?s1 = (seen_ks s, filter is_ks_event (trace s) @ [Get KnowledgeSource n])"
      by (simp add: ks_view_def emit_def)
    have unf: "dump_ks_ref svc ks_ref s =
      http_get svc KnowledgeSource n ?s0 (\<lambda>ks s1.
              if \<not> truthy ks then Inr (emit (Print (KsNotFound n)) s1)
              else
                (let s2 = dump KnowledgeSource n ks s1;
                     s3 = s2\<lparr>seen_ks := insert n (seen_ks s2)\<rparr>
                 in try_py (extract_resources_from_ks ks) s3 (\<lambda>(resources, notices).
                      dump_resources svc resources
                        (s3\<lparr>trace := trace s3 @ map (\<lambda>n. Print (ResolverNotice n)) notices\<rparr>))))"
      using False Inr by (simp add: dump_ks_ref_def try_py_def)
    show ?thesis
    proof (cases "svc KnowledgeSource n")
      case NotFound
      then show ?thesis using False Inr v1
        by (simp add: unf http_get_def Let_def ks_step_def ks_exists_def ks_view_print)
          (simp add: ks_view_def)
    next
      case Failed
      then show ?thesis using False Inr v1
        by (simp add: unf http_get_def Let_def ks_step_def ks_exists_def)
          (simp add: ks_view_def)
    next
      case (Found ks)
      show ?thesis
      proof (cases "truthy ks")
        case f: False
        then show ?thesis using False Inr v1 Found
          by (simp add: unf http_get_def Let_def ks_step_def ks_exists_def ks_view_print)
            (simp add: ks_view_def)
      next
        case t: True
        let ?s2 = "dump KnowledgeSource n ks ?s1"
        let ?s3 = "?s2\<lparr>seen_ks := insert n (seen_ks ?s2)\<rparr>"
        have v3: "ks_view ?s3 = (insert n (seen_ks s),
            filter is_ks_event (trace s) @ [Get KnowledgeSource n, Dump KnowledgeSource n ks])"
          by (simp add: ks_view_def emit_def dump_def)
        have "ks_view (final_state (try_py (extract_resources_from_ks ks) ?s3 (\<lambda>(resources, notices).
                      dump_resources svc resources
                        (?s3\<lparr>trace := trace ?s3 @ map (\<lambda>n. Print (ResolverNotice n)) notices\<rparr>))))
              = ks_view ?s3"
        proof (rule try_py_view)
          fix x assume "extract_resources_from_ks ks = Inr x"
          obtain r ns where x: "x = (r, ns)" by (cases x)
          have "ks_view (?s3\<lparr>trace := trace ?s3 @ map (\<lambda>n. Print (ResolverNotice n)) ns\<rparr>) = ks_view ?s3"
            by (simp add: ks_view_def filter_empty_conv)
          then show "ks_view (final_state ((\<lambda>(resources, notices).
                      dump_resources svc resources
                        (?s3\<lparr>trace := trace ?s3 @ map (\<lambda>n. Print (ResolverNotice n)) notices\<rparr>)) x))
              = ks_view ?s3"
            by (simp add: x dump_resources_view)
        qed simp
        then show ?thesis using False Inr Found t v3
          by (simp add: unf http_get_def Let_def ks_step_def ks_exists_def)
            (simp add: ks_view_def)
      qed
    qed
  qed
qed

lemma fetches_append [simp]:
  "fetches_of_ks n (xs @ ys) = fetches_of_ks n xs + fetches_of_ks n ys"
  by (simp add: fetches_of_ks_def)

lemma dumps_append [simp]:
  "dumps_of_ks n (xs @ ys) = dumps_of_ks n xs + dumps_of_ks n ys"
  by (simp add: dumps_of_ks_def)

lemma count_Cons [simp]:
  "fetches_of_ks n (Get KnowledgeSource m # evs) = (if m = n then 1 else 0) + fetches_of_ks n evs"
  "fetches_of_ks n (Dump kind m doc # evs) = fetches_of_ks n evs"
  "dumps_of_ks n (Get kind m # evs) = dumps_of_ks n evs"
  "dumps_of_ks n (Dump KnowledgeSource m doc # evs) = (if m = n then 1 else 0) + dumps_of_ks n evs"
  "fetches_of_ks n [] = 0" "dumps_of_ks n [] = 0"
  by (simp_all add: fetches_of_ks_def dumps_of_ks_def)

lemma counts_filter:
  "fetches_of_ks n (filter is_ks_event evs) = fetches_of_ks n evs"
  "dumps_of_ks n (filter is_ks_event evs) = dumps_of_ks n evs"
proof -
  have "\<And>e. (is_ks_event e \<and> e = Get KnowledgeSource n) = (e = Get KnowledgeSource n)"
    by auto
  then show "fetches_of_ks n (filter is_ks_event evs) = fetches_of_ks n evs"
    by (simp add: fetches_of_ks_def)
  have "\<And>e. (is_ks_event e \<and> (case e of Dump KnowledgeSource m doc \<Rightarrow> m = n | _ \<Rightarrow> False))
             = (case e of Dump KnowledgeSource m doc \<Rightarrow> m = n | _ \<Rightarrow> False)"
    by (auto split: event.splits res_kind.splits)
  then show "dumps_of_ks n (filter is_ks_event evs) = dumps_of_ks n evs"
    by (simp add: dumps_of_ks_def)
qed

lemma ks_step_inv:
  assumes "ks_inv svc v"
  shows "ks_inv svc (ks_step svc ks_ref v)"
proof (cases "py_get ks_ref ''name''")
  case (Inl e)
  then show ?thesis using assms by (simp add: ks_step_def)
next
  case (Inr n)
  show ?thesis
  proof (cases "\<not> truthy n \<or> \<not> hashable n \<or> py_in_set n (fst v)")
    case True
    then show ?thesis using assms Inr by (auto simp add: ks_step_def)
  next
    case False
    then have nin: "n \<notin> fst v" using py_in_set_member[of n "fst v"] by auto
    show ?thesis
    proof (cases "ks_exists svc n")
      case True
      then have "ks_step svc ks_ref v =
        (insert n (fst v), snd v @ [Get KnowledgeSource n,
           Dump KnowledgeSource n (case svc KnowledgeSource n of Found ks \<Rightarrow> ks | _ \<Rightarrow> JNull)])"
        using False Inr by (simp add: ks_step_def)
      then show ?thesis using assms nin True
        by (auto simp add: ks_inv_def)
    next
      case ne: False
      then have "ks_step svc ks_ref v = (fst v, snd v @ [Get KnowledgeSource n])"
        using False Inr by (simp add: ks_step_def)
      then show ?thesis using assms nin ne
        by (auto simp add: ks_inv_def)
    qed
  qed
qed

lemma ks_step_mono: "fst v \<subseteq> fst (ks_step svc ks_ref v)"
  by (auto simp add: ks_step_def split: sum.splits)

lemma ks_step_hit:
  assumes "py_get ks_ref ''name'' = Inr (JStr n)" "n \<noteq> []" "ks_exists svc (JStr n)"
  shows "JStr n \<in> fst (ks_step svc ks_ref v)"
  using assms by (simp add: ks_step_def py_in_set_JStr)

lemma seen_ks_view: "seen_ks s = fst (ks_view s)"
  by (simp add: ks_view_def)

lemma for_each_mono:
  fixes s :: export_state
  assumes r: "for_each body xs s = Inr s'"
    and mono: "\<And>y t t'. body y t = Inr t' \<Longrightarrow> seen_ks t \<subseteq> seen_ks t'"
  shows "seen_ks s \<subseteq> seen_ks s'"
  using r
proof (induction xs arbitrary: s)
  case Nil
  then show ?case by simp
next
  case (Cons y ys)
  from Cons.prems obtain s1 where 1: "body y s = Inr s1" and 2: "for_each body ys s1 = Inr s'"
    by (auto split: sum.splits)
  show ?case using mono[OF 1] Cons.IH[OF 2] by blast
qed

lemma for_each_hit:
  fixes s :: export_state
  assumes r: "for_each body xs s = Inr s'"
    and x: "x \<in> set xs"
    and mono: "\<And>y t t'. body y t = Inr t' \<Longrightarrow> seen_ks t \<subseteq> seen_ks t'"
    and hit: "\<And>t t'. body x t = Inr t' \<Longrightarrow> n \<in> seen_ks t'"
  shows "n \<in> seen_ks s'"
  using r x
proof (induction xs arbitrary: s)
  case Nil
  then show ?case by simp
next
  case (Cons y ys)
  from Cons.prems(1) obtain s1 where 1: "body y s = Inr s1" and 2: "for_each body ys s1 = Inr s'"
    by (auto split: sum.splits)
  show ?case
  proof (cases "x = y")
    case True
    then have "n \<in> seen_ks s1" using hit 1 by simp
    moreover have "seen_ks s1 \<subseteq> seen_ks s'"
      using 2 by (rule for_each_mono) (rule mono)
    ultimately show ?thesis by blast
  next
    case False
    then have "x \<in> set ys" using Cons.prems(2) by simp
    then show ?thesis using Cons.IH[OF 2] by simp
  qed
qed

lemma dump_ks_ref_inv:
  "ks_inv svc (ks_view s) \<Longrightarrow> ks_inv svc (ks_view (final_state (dump_ks_ref svc ks_ref s)))"
  by (simp add: dump_ks_ref_view ks_step_inv)

lemma dump_ks_ref_mono: "seen_ks s \<subseteq> seen_ks (final_state (dump_ks_ref svc ks_ref s))"
  using ks_step_mono[of "ks_view s" svc ks_ref]
  by (simp add: seen_ks_view dump_ks_ref_view)

lemma dump_ks_ref_hit:
  assumes "dump_ks_ref svc ks_ref s = Inr s'"
    and "py_get ks_ref ''name'' = Inr (JStr n)" "n \<noteq> []" "ks_exists svc (JStr n)"
  shows "JStr n \<in> seen_ks s'"
proof -
  have "ks_view s' = ks_step svc ks_ref (ks_view s)"
    using dump_ks_ref_view[of svc ks_ref s] assms(1) by simp
  then show ?thesis using ks_step_hit[OF assms(2-4), of "ks_view s"] by (simp add: seen_ks_view)
qed

lemma dump_kb_cases:
  "ks_view (final_state (dump_kb svc kb_name s)) = ks_view s
   \<or> (\<exists>items s2. ks_view s2 = ks_view s
         \<and> final_state (dump_kb svc kb_name s) = final_state (for_each (dump_ks_ref svc) items s2))"
proof -
  let ?s0 = "emit (Print (KbHeader kb_name)) s"
  let ?s1 = "emit (Get KnowledgeBase kb_name) ?s0"
  have v1: "ks_view ?s1 = ks_view s" by (simp add: ks_view_emit)
  show ?thesis
  proof (cases "svc KnowledgeBase kb_name")
    case NotFound
    then show ?thesis using v1 by (simp add: dump_kb_def http_get_def Let_def ks_view_print)
  next
    case Failed
    then show ?thesis using v1 by (simp add: dump_kb_def http_get_def Let_def)
  next
    case (Found kb)
    show ?thesis
    proof (cases "truthy kb")
      case False
      then show ?thesis using v1 Found
        by (simp add: dump_kb_def http_get_def Let_def ks_view_print)
    next
      case True
      let ?s2 = "dump KnowledgeBase kb_name kb ?s1"
      have v2: "ks_view ?s2 = ks_view s" using v1 by (simp add: ks_view_dump)
      have unf: "dump_kb svc kb_name s =
        try_py (py_get_default kb ''knowledgeSources'' (JArr [])) ?s2 (\<lambda>refs.
             try_py (py_iter refs) ?s2 (\<lambda>items.
               for_each (dump_ks_ref svc) items ?s2))"
        using Found True by (simp add: dump_kb_def http_get_def Let_def)
      show ?thesis
      proof (cases "py_get_default kb ''knowledgeSources'' (JArr [])")
        case (Inl e)
        then show ?thesis using v2 by (simp add: unf try_py_def)
      next
        case (Inr refs)
        show ?thesis
        proof (cases "py_iter refs")
          case (Inl e)
          then show ?thesis using v2 Inr by (simp add: unf try_py_def)
        next
          case i: (Inr items)
          have "final_state (dump_kb svc kb_name s) = final_state (for_each (dump_ks_ref svc) items ?s2)"
            using Inr i by (simp add: unf try_py_def)
          then show ?thesis using v2 by blast
        qed
      qed
    qed
  qed
qed

lemma dump_kb_inv:
  assumes "ks_inv svc (ks_view s)"
  shows "ks_inv svc (ks_view (final_state (dump_kb svc kb_name s)))"
proof -
  from dump_kb_cases[of svc kb_name s] show ?thesis
  proof
    assume "ks_view (final_state (dump_kb svc kb_name s)) = ks_view s"
    then show ?thesis using assms by simp
  next
    assume "\<exists>items s2. ks_view s2 = ks_view s
         \<and> final_state (dump_kb svc kb_name s) = final_state (for_each (dump_ks_ref svc) items s2)"
    then obtain items s2 where v: "ks_view s2 = ks_view s"
      and f: "final_state (dump_kb svc kb_name s) = final_state (for_each (dump_ks_ref svc) items s2)"
      by blast
    have "(\<lambda>t. ks_inv svc (ks_view t)) (final_state (for_each (dump_ks_ref svc) items s2))"
      by (rule for_each_final) (simp_all add: dump_ks_ref_inv v assms)
    then show ?thesis using f by simp
  qed
qed

lemma dump_kb_mono: "seen_ks s \<subseteq> seen_ks (final_state (dump_kb svc kb_name s))"
proof -
  from dump_kb_cases[of svc kb_name s] show ?thesis
  proof
    assume "ks_view (final_state (dump_kb svc kb_name s)) = ks_view s"
    then show ?thesis by (simp add: seen_ks_view)
  next
    assume "\<exists>items s2. ks_view s2 = ks_view s
         \<and> final_state (dump_kb svc kb_name s) = final_state (for_each (dump_ks_ref svc) items s2)"
    then obtain items s2 where v: "ks_view s2 = ks_view s"
      and f: "final_state (dump_kb svc kb_name s) = final_state (for_each (dump_ks_ref svc) items s2)"
      by blast
    have "(\<lambda>t. seen_ks s \<subseteq> seen_ks t) (final_state (for_each (dump_ks_ref svc) items s2))"
    proof (rule for_each_final)
      fix x and t :: export_state assume "seen_ks s \<subseteq> seen_ks t"
      then show "seen_ks s \<subseteq> seen_ks (final_state (dump_ks_ref svc x t))"
        using dump_ks_ref_mono[of t svc x] by blast
    next
      show "seen_ks s \<subseteq> seen_ks s2" using v by (simp add: seen_ks_view)
    qed
    then show ?thesis using f by simp
  qed
qed

lemma dump_kb_hit:
  assumes r: "dump_kb svc kb_name s = Inr s'"
    and ref: "references svc kb_name (JStr n)"
    and n: "n \<noteq> []" "ks_exists svc (JStr n)"
  shows "JStr n \<in> seen_ks s'"
proof -
  from ref obtain kb refs where f: "svc KnowledgeBase kb_name = Found kb" and t: "truthy kb"
    and g: "py_get_default kb ''knowledgeSources'' (JArr []) = Inr (JArr refs)"
    and ex: "list_ex (\<lambda>ks_ref. py_get ks_ref ''name'' = Inr (JStr n)) refs"
    by (auto simp add: references_def split: fetched.splits sum.splits json.splits)
  from ex obtain ks_ref where m: "ks_ref \<in> set refs"
    and nm: "py_get ks_ref ''name'' = Inr (JStr n)"
    by (auto simp add: list_ex_iff)
  let ?s2 = "dump KnowledgeBase kb_name kb
               (emit (Get KnowledgeBase kb_name) (emit (Print (KbHeader kb_name)) s))"
  have "for_each (dump_ks_ref svc) refs ?s2 = Inr s'"
    using r f t g by (simp add: dump_kb_def http_get_def Let_def try_py_def)
  then show ?thesis using m
  proof (rule for_each_hit)
    fix y t t' assume "dump_ks_ref svc y t = Inr t'"
    then show "seen_ks t \<subseteq> seen_ks t'" using dump_ks_ref_mono[of t svc y] by simp
  next
    fix t t' assume "dump_ks_ref svc ks_ref t = Inr t'"
    then show "JStr n \<in> seen_ks t'" using nm n by (rule dump_ks_ref_hit)
  qed
qed

lemma ks_inv_initial: "ks_inv svc (ks_view initial_state)"
  by (simp add: ks_inv_def ks_view_def initial_state_def)

lemma kb_loop_inv:
  "ks_inv svc (ks_view (final_state (for_each (dump_kb svc) kb_names initial_state)))"
proof -
  have "(\<lambda>t. ks_inv svc (ks_view t)) (final_state (for_each (dump_kb svc) kb_names initial_state))"
    by (rule for_each_final) (simp_all add: dump_kb_inv ks_inv_initial)
  then show ?thesis .
qed

lemma export_main_view:
  "ks_view (final_state (export_main svc kb_names))
     = ks_view (final_state (for_each (dump_kb svc) kb_names initial_state))"
  by (cases "for_each (dump_kb svc) kb_names initial_state")
    (auto simp add: export_main_def ks_view_print)

lemma counts_view:
  "fetches_of_ks n (trace s) = fetches_of_ks n (snd (ks_view s))"
  "dumps_of_ks n (trace s) = dumps_of_ks n (snd (ks_view s))"
  by (simp_all add: ks_view_def counts_filter)

text \<open>
  Claim C7, amended. In a run that completes, a knowledge source with a string name that
  the service has and that two knowledge bases of the root list name is fetched exactly
  once and written exactly once. In every run, also one ended by an exception, no
  knowledge source with a string name is written more than once, and one that the service
  has is not fetched more than once.
\<close>

theorem export_dedups_knowledge_sources:
  "(export_main svc kb_names = Inr s
      \<and> i < j \<and> j < length kb_names
      \<and> references svc (kb_names ! i) (JStr n) \<and> references svc (kb_names ! j) (JStr n)
      \<and> n \<noteq> [] \<and> ks_exists svc (JStr n)
    \<longrightarrow> fetches_of_ks (JStr n) (trace s) = 1 \<and> dumps_of_ks (JStr n) (trace s) = 1)
   \<and> dumps_of_ks (JStr m) (trace (final_state (export_main svc kb_names))) \<le> 1
   \<and> (ks_exists svc (JStr m)
    \<longrightarrow> fetches_of_ks (JStr m) (trace (final_state (export_main svc kb_names))) \<le> 1)"
proof -
  have inv: "ks_inv svc (ks_view (final_state (export_main svc kb_names)))"
    by (simp add: export_main_view kb_loop_inv)
  have part1: "fetches_of_ks (JStr n) (trace s) = 1 \<and> dumps_of_ks (JStr n) (trace s) = 1"
    if a: "export_main svc kb_names = Inr s
      \<and> i < j \<and> j < length kb_names
      \<and> references svc (kb_names ! i) (JStr n) \<and> references svc (kb_names ! j) (JStr n)
      \<and> n \<noteq> [] \<and> ks_exists svc (JStr n)"
  proof -
    from a obtain s0 where l: "for_each (dump_kb svc) kb_names initial_state = Inr s0"
      by (cases "for_each (dump_kb svc) kb_names initial_state") (auto simp add: export_main_def)
    have v: "ks_view s = ks_view s0"
      using a l export_main_view[of svc kb_names] by simp
    have "kb_names ! i \<in> set kb_names" using a by simp
    with l have "JStr n \<in> seen_ks s0"
    proof (rule for_each_hit)
      fix y t t' assume "dump_kb svc y t = Inr t'"
      then show "seen_ks t \<subseteq> seen_ks t'" using dump_kb_mono[of t svc y] by simp
    next
      fix t t' assume "dump_kb svc (kb_names ! i) t = Inr t'"
      then show "JStr n \<in> seen_ks t'" using a by (intro dump_kb_hit[of svc "kb_names ! i" t]) simp_all
    qed
    then have "JStr n \<in> fst (ks_view s)" using v by (simp add: seen_ks_view)
    moreover have "ks_inv svc (ks_view s)" using inv a by simp
    ultimately show ?thesis using a
      by (simp add: counts_view ks_inv_def)
  qed
  have part2: "dumps_of_ks (JStr m) (trace (final_state (export_main svc kb_names))) \<le> 1"
    using inv by (simp add: counts_view ks_inv_def)
  have part3: "ks_exists svc (JStr m)
    \<longrightarrow> fetches_of_ks (JStr m) (trace (final_state (export_main svc kb_names))) \<le> 1"
    using inv by (simp add: counts_view ks_inv_def)
  show ?thesis using part1 part2 part3 by blast
qed

lemmas export_eval =
  export_main_def dump_kb_def dump_ks_ref_def dump_resources_def dump_dependent_def
  dump_index_def dump_synmap_def http_get_def try_py_def dump_def emit_def initial_state_def
  py_get_def extract_resources_from_ks_def created_resources_def
  no_resources_def Let_def py_in_set_def py_eq_def

text \<open>
  Claim C7, as stated, fails: a name is entered in the dedup set after its document was
  found and written. A knowledge source that the service does not have is fetched again
  at the second reference, and never written.
\<close>

theorem export_fetches_missing_ks_twice_counterexample:
  "references service_without_ks1 (JStr ''kb1'') (JStr ''ks1'')
   \<and> references service_without_ks1 (JStr ''kb2'') (JStr ''ks1'')
   \<and> fetches_of_ks (JStr ''ks1'')
        (trace (final_state (export_main service_without_ks1 [JStr ''kb1'', JStr ''kb2'']))) = 2
   \<and> dumps_of_ks (JStr ''ks1'')
        (trace (final_state (export_main service_without_ks1 [JStr ''kb1'', JStr ''kb2'']))) = 0"
  by (simp add: export_eval service_without_ks1_def references_def final_state_def
      fetches_of_ks_def dumps_of_ks_def)

theorem export_dedups_knowledge_sources_witness:
  "export_main service_with_ks1 [JStr ''kb1'', JStr ''kb2'']
     = Inr (final_state (export_main service_with_ks1 [JStr ''kb1'', JStr ''kb2'']))
   \<and> references service_with_ks1 ([JStr ''kb1'', JStr ''kb2''] ! 0) (JStr ''ks1'')
   \<and> references service_with_ks1 ([JStr ''kb1'', JStr ''kb2''] ! 1) (JStr ''ks1'')
   \<and> ks_exists service_with_ks1 (JStr ''ks1'')
   \<and> fetches_of_ks (JStr ''ks1'')
        (trace (final_state (export_main service_with_ks1 [JStr ''kb1'', JStr ''kb2'']))) = 1
   \<and> dumps_of_ks (JStr ''ks1'')
        (trace (final_state (export_main service_with_ks1 [JStr ''kb1'', JStr ''kb2'']))) = 1"
proof -
  let ?names = "[JStr ''kb1'', JStr ''kb2'']"
  let ?s = "final_state (export_main service_with_ks1 ?names)"
  have "\<exists>s. export_main service_with_ks1 ?names = Inr s"
    by (simp add: export_eval service_with_ks1_def)
  then have h1: "export_main service_with_ks1 ?names = Inr ?s" by auto
  have h2: "references service_with_ks1 (?names ! 0) (JStr ''ks1'')"
    by (simp add: references_def service_with_ks1_def py_get_def)
  have h3: "references service_with_ks1 (?names ! 1) (JStr ''ks1'')"
    by (simp add: references_def service_with_ks1_def py_get_def)
  have h4: "ks_exists service_with_ks1 (JStr ''ks1'')"
    by (simp add: ks_exists_def service_with_ks1_def)
  have h5: "(0::nat) < 1 \<and> 1 < length ?names" by simp
  have h6: "''ks1'' \<noteq> []" by simp
  from export_dedups_knowledge_sources[of service_with_ks1 ?names ?s 0 1 "''ks1''",
      THEN conjunct1, rule_format] h1 h2 h3 h4 h5 h6
  have c: "fetches_of_ks (JStr ''ks1'') (trace ?s) = 1 \<and> dumps_of_ks (JStr ''ks1'') (trace ?s) = 1"
    by simp
  show ?thesis using h1 h2 h3 h4 c by (intro conjI) simp_all
qed

text \<open>
  Names that are equal numbers are one element of the dedup set: after the knowledge
  source named \<^verbatim>\<open>1\<close>, the one named \<^verbatim>\<open>true\<close> is skipped.
\<close>

lemma export_dedups_equal_numbers:
  "fetches_of_ks (JInt 1)
     (trace (final_state (export_main
        (\<lambda>kind name.
           if kind = KnowledgeBase
           then Found (JObj [(''name'', name),
                  (''knowledgeSources'',
                     JArr [JObj [(''name'', JInt 1)], JObj [(''name'', JBool True)]])])
           else if kind = KnowledgeSource
           then Found (JObj [(''name'', name), (''kind'', JStr ''web'')])
           else NotFound)
        [JStr ''kb1'']))) = 1
   \<and> fetches_of_ks (JBool True)
     (trace (final_state (export_main
        (\<lambda>kind name.
           if kind = KnowledgeBase
           then Found (JObj [(''name'', name),
                  (''knowledgeSources'',
                     JArr [JObj [(''name'', JInt 1)], JObj [(''name'', JBool True)]])])
           else if kind = KnowledgeSource
           then Found (JObj [(''name'', name), (''kind'', JStr ''web'')])
           else NotFound)
        [JStr ''kb1'']))) = 0"
  by (simp add: export_eval final_state_def fetches_of_ks_def)

section \<open>Properties of the Sanitizer on objects in memory\<close>

subsection \<open>Documents in a store\<close>

lemma repr_frame:
  "repr_in A h v j \<Longrightarrow> (\<And>a obj. a \<in> A \<Longrightarrow> lookup_obj h a = Some obj \<Longrightarrow> lookup_obj h' a = Some obj)
     \<Longrightarrow> repr_in A h' v j"
  "repr_items A h items kvs \<Longrightarrow> (\<And>a obj. a \<in> A \<Longrightarrow> lookup_obj h a = Some obj \<Longrightarrow> lookup_obj h' a = Some obj)
     \<Longrightarrow> repr_items A h' items kvs"
  "repr_list A h vs xs \<Longrightarrow> (\<And>a obj. a \<in> A \<Longrightarrow> lookup_obj h a = Some obj \<Longrightarrow> lookup_obj h' a = Some obj)
     \<Longrightarrow> repr_list A h' vs xs"
proof (induction A h v j and A h items kvs and A h vs xs rule: repr_in_repr_items_repr_list.induct)
  case (6 A h v xs)
  then show ?case by (auto split: pval.splits option.splits pobj.splits)
next
  case (7 A h v kvs)
  then show ?case by (auto split: pval.splits option.splits pobj.splits)
next
  case (9 A h items kv kvs)
  then show ?case by (auto split: list.splits)
next
  case (11 A h vs x xs)
  then show ?case by (auto split: list.splits)
qed simp_all

lemma repr_mono:
  "repr_in A h v j \<Longrightarrow> A \<subseteq> B \<Longrightarrow> repr_in B h v j"
  "repr_items A h items kvs \<Longrightarrow> A \<subseteq> B \<Longrightarrow> repr_items B h items kvs"
  "repr_list A h vs xs \<Longrightarrow> A \<subseteq> B \<Longrightarrow> repr_list B h vs xs"
proof (induction A h v j and A h items kvs and A h vs xs rule: repr_in_repr_items_repr_list.induct)
  case (6 A h v xs)
  then show ?case by (auto split: pval.splits option.splits pobj.splits)
next
  case (7 A h v kvs)
  then show ?case by (auto split: pval.splits option.splits pobj.splits)
next
  case (9 A h items kv kvs)
  then show ?case by (auto split: list.splits)
next
  case (11 A h vs x xs)
  then show ?case by (auto split: list.splits)
qed simp_all

lemma repr_items_update:
  "repr_items A h items kvs \<Longrightarrow> repr_in A h v j \<Longrightarrow>
   repr_items A h (AList.update k v items) (AList.update k j kvs)"
proof (induction kvs arbitrary: items)
  case Nil
  then show ?case by simp
next
  case (Cons kv kvs)
  then show ?case by (cases items) (auto split: list.splits)
qed

lemma repr_list_append:
  "repr_list A h vs xs \<Longrightarrow> repr_in A h v j \<Longrightarrow> repr_list A h (vs @ [v]) (xs @ [j])"
proof (induction xs arbitrary: vs)
  case Nil
  then show ?case by simp
next
  case (Cons x xs)
  then show ?case by (cases vs) (auto split: list.splits)
qed

lemma repr_scalar:
  "(\<forall>d. j \<noteq> JObj d) \<Longrightarrow> (\<forall>xs. j \<noteq> JArr xs) \<Longrightarrow> repr_in A h (scalar_pval j) j"
  by (cases j) simp_all

lemma repr_scalar_json:
  "repr_in A h v j \<Longrightarrow> (\<forall>p. v \<noteq> PRef p) \<Longrightarrow> scalar_json v = j \<and> (\<forall>d. j \<noteq> JObj d) \<and> (\<forall>xs. j \<noteq> JArr xs)"
  by (cases j) (auto split: pval.splits)

lemma lookup_prefix:
  "take (length h) h1 = h \<Longrightarrow> a < length h \<Longrightarrow> lookup_obj h1 a = lookup_obj h a"
proof -
  assume t: "take (length h) h1 = h" and a: "a < length h"
  have "length (take (length h) h1) = length h" by (simp only: t)
  then have "length h \<le> length h1" by simp
  moreover have "take (length h) h1 ! a = h1 ! a" using a by simp
  then have "h1 ! a = h ! a" by (simp only: t)
  ultimately show ?thesis using a by (simp add: lookup_obj_def)
qed

lemma lookup_Some_less: "lookup_obj h a = Some obj \<Longrightarrow> a < length h"
  by (simp add: lookup_obj_def split: if_splits)

lemma set_item_facts:
  "length (set_item h r k v) = length h"
  "take r (set_item h r k v) = take r h"
  "a \<noteq> r \<Longrightarrow> lookup_obj (set_item h r k v) a = lookup_obj h a"
  "lookup_obj h r = Some (PDict acc) \<Longrightarrow>
     lookup_obj (set_item h r k v) r = Some (PDict (AList.update k v acc))"
  by (auto simp add: set_item_def lookup_obj_def split: option.splits pobj.splits if_splits)

lemma append_item_facts:
  "length (append_item h r v) = length h"
  "take r (append_item h r v) = take r h"
  "a \<noteq> r \<Longrightarrow> lookup_obj (append_item h r v) a = lookup_obj h a"
  "lookup_obj h r = Some (PList acc) \<Longrightarrow>
     lookup_obj (append_item h r v) r = Some (PList (acc @ [v]))"
  by (auto simp add: append_item_def lookup_obj_def split: option.splits pobj.splits if_splits)

text \<open>One store after a step of a loop, seen from the loop: the result object got a new
  entry, objects below it and the earlier results above it are as they were.\<close>

lemma dict_step:
  assumes r: "result < length h"
    and acc: "lookup_obj h result = Some (PDict acc)"
    and ra: "repr_items {a. result < a} h acc accj"
    and ri: "repr_items {a. a < result} h ivs kvs"
    and ext: "length h \<le> length h1" "take (length h) h1 = h"
    and new: "repr_in {a. result < a} h1 v j"
  shows "result < length (set_item h1 result k v)"
    and "lookup_obj (set_item h1 result k v) result = Some (PDict (AList.update k v acc))"
    and "repr_items {a. result < a} (set_item h1 result k v) (AList.update k v acc) (AList.update k j accj)"
    and "repr_items {a. a < result} (set_item h1 result k v) ivs kvs"
    and "take result (set_item h1 result k v) = take result h"
    and "length h \<le> length (set_item h1 result k v)"
proof -
  let ?h2 = "set_item h1 result k v"
  have l1: "\<And>a. a < length h \<Longrightarrow> lookup_obj h1 a = lookup_obj h a"
    using ext(2) by (rule lookup_prefix)
  have keep: "\<And>a obj. a \<noteq> result \<Longrightarrow> lookup_obj h a = Some obj \<Longrightarrow> lookup_obj ?h2 a = Some obj"
    using l1 lookup_Some_less by (simp add: set_item_facts(3))
  show "result < length ?h2" using r ext(1) by (simp add: set_item_facts(1))
  show "length h \<le> length ?h2" using ext(1) by (simp add: set_item_facts(1))
  have "lookup_obj h1 result = Some (PDict acc)" using l1[OF r] acc by simp
  then show "lookup_obj ?h2 result = Some (PDict (AList.update k v acc))"
    by (rule set_item_facts(4))
  have "repr_items {a. result < a} ?h2 acc accj"
    using ra by (rule repr_frame(2)) (simp add: keep)
  moreover have "repr_in {a. result < a} ?h2 v j"
    using new by (rule repr_frame(1)) (simp add: set_item_facts(3))
  ultimately show "repr_items {a. result < a} ?h2 (AList.update k v acc) (AList.update k j accj)"
    by (rule repr_items_update)
  show "repr_items {a. a < result} ?h2 ivs kvs"
    using ri by (rule repr_frame(2)) (simp add: keep)
  have "take result (take (length h) h1) = take result h1" using r by (simp add: min_def)
  then have "take result h1 = take result h" by (simp only: ext(2))
  then show "take result ?h2 = take result h" by (simp add: set_item_facts(2))
qed

subsection \<open>The loops compute the transform and touch the result only\<close>

lemma scalar_result:
  assumes "(\<forall>d. j \<noteq> JObj d)" "(\<forall>xs. j \<noteq> JArr xs)"
  shows "repr_in A h (scalar_pval (if is_legacy_container pk k j then JStr CONTAINER_PLACEHOLDER
                                    else sanitize_value k j))
           (if is_legacy_container pk k j then JStr CONTAINER_PLACEHOLDER else sanitize_value k j)"
  using sanitize_value_scalar[of j k] assms by (simp add: repr_scalar)

lemma sanitize_dict_loop_scalar:
  assumes "(\<forall>d. j \<noteq> JObj d)" "(\<forall>xs. j \<noteq> JArr xs)"
  shows "sanitize_dict_loop ((k, j) # rest) pk acc =
         sanitize_dict_loop rest pk
           (AList.update k (if is_legacy_container pk k j then JStr CONTAINER_PLACEHOLDER
                            else sanitize_value k j) acc)"
  using assms by (cases j) simp_all

lemma dict_loop_refines:
  assumes D: "dict_spec n" and L: "list_spec n"
  shows "result < length h \<Longrightarrow> lookup_obj h result = Some (PDict acc) \<Longrightarrow>
     repr_items {a. result < a} h acc accj \<Longrightarrow> repr_items {a. a < result} h items kvs \<Longrightarrow>
     depth_items kvs \<le> n \<Longrightarrow>
     \<exists>h' acc'. dict_loop_h n h result items pk = Some h' \<and> length h \<le> length h'
        \<and> take result h' = take result h
        \<and> lookup_obj h' result = Some (PDict acc')
        \<and> repr_items {a. result < a} h' acc' (sanitize_dict_loop kvs pk accj)"
proof (induction kvs arbitrary: items h acc accj)
  case Nil
  then show ?case by simp
next
  case (Cons kv kvs)
  from Cons.prems(4) obtain iv ivs where items: "items = iv # ivs" and k: "fst iv = fst kv"
    and rv: "repr_in {a. a < result} h (snd iv) (snd kv)"
    and ri: "repr_items {a. a < result} h ivs kvs"
    by (cases items) auto
  obtain key j where kv: "kv = (key, j)" by (cases kv)
  have dj: "depth j \<le> n" and dk: "depth_items kvs \<le> n" using Cons.prems(5) kv by simp_all
  have step: "\<exists>h' acc'. dict_loop_h n h2 result ivs pk = Some h' \<and> length h \<le> length h'
        \<and> take result h' = take result h
        \<and> lookup_obj h' result = Some (PDict acc')
        \<and> repr_items {a. result < a} h' acc' (sanitize_dict_loop kvs pk (AList.update key j' accj))"
    if ext: "length h \<le> length h1" "take (length h) h1 = h"
      and new: "repr_in {a. result < a} h1 v j'"
      and h2: "h2 = set_item h1 result key v"
    for h1 h2 v j'
  proof -
    note s = dict_step[OF Cons.prems(1) Cons.prems(2) Cons.prems(3) ri ext new, where k = key]
    from Cons.IH[OF s(1)[folded h2] s(2)[folded h2] s(3)[folded h2] s(4)[folded h2] dk]
    obtain h' acc' where "dict_loop_h n h2 result ivs pk = Some h'" "length h2 \<le> length h'"
      "take result h' = take result h2" "lookup_obj h' result = Some (PDict acc')"
      "repr_items {a. result < a} h' acc' (sanitize_dict_loop kvs pk (AList.update key j' accj))"
      by blast
    then show ?thesis using s(5)[folded h2] s(6)[folded h2] by auto
  qed
  consider (JObj) d where "j = JObj d" | (JArr) xs where "j = JArr xs"
    | (scalar) "\<forall>d. j \<noteq> JObj d" "\<forall>xs. j \<noteq> JArr xs"
    by blast
  then show ?case
  proof cases
    case scalar
    have nr: "\<forall>p. snd iv \<noteq> PRef p"
      using rv kv scalar by (cases j) auto
    have sj: "scalar_json (snd iv) = j"
      using repr_scalar_json[of "{a. a < result}" h "snd iv" j] rv kv nr by simp
    let ?j' = "if is_legacy_container pk key j then JStr CONTAINER_PLACEHOLDER
               else sanitize_value key j"
    have new: "repr_in {a. result < a} h (scalar_pval ?j') ?j'"
      using scalar by (rule scalar_result)
    have e: "length h \<le> length h" "take (length h) h = h" by simp_all
    from step[OF e new refl]
    obtain h' acc' where "dict_loop_h n (set_item h result key (scalar_pval ?j')) result ivs pk = Some h'"
      "length h \<le> length h'" "take result h' = take result h"
      "lookup_obj h' result = Some (PDict acc')"
      "repr_items {a. result < a} h' acc' (sanitize_dict_loop kvs pk (AList.update key ?j' accj))"
      by auto
    moreover have "dict_loop_h n h result items pk =
        dict_loop_h n (set_item h result key (scalar_pval ?j')) result ivs pk"
      using items k kv nr sj by (cases "snd iv") simp_all
    moreover have "sanitize_dict_loop (kv # kvs) pk accj =
        sanitize_dict_loop kvs pk (AList.update key ?j' accj)"
      unfolding kv using scalar by (rule sanitize_dict_loop_scalar)
    ultimately show ?thesis by auto
  next
    case (JObj d)
    from rv kv JObj obtain p itp where p: "snd iv = PRef p" and pl: "p < result"
      and lp: "lookup_obj h p = Some (PDict itp)" and rp: "repr_items {a. a < result} h itp d"
      by (auto split: pval.splits option.splits pobj.splits)
    have "repr_in {a. a < result} h (PRef p) (JObj d)" using rv kv JObj p by simp
    then have "repr_in {a. a < length h} h (PRef p) (JObj d)"
      by (rule repr_mono(1)) (use Cons.prems(1) in auto)
    with D dj JObj obtain h1 where
      c: "sanitize_dict_h n h p key = Some (h1, length h)"
      and e: "length h < length h1" "take (length h) h1 = h"
      and rn: "repr_in {a. length h \<le> a} h1 (PRef (length h)) (JObj (sanitize_dict d key))"
      unfolding dict_spec_def by blast
    have new: "repr_in {a. result < a} h1 (PRef (length h)) (JObj (sanitize_dict d key))"
      using rn by (rule repr_mono(1)) (use Cons.prems(1) in auto)
    from step[OF _ e(2) new refl] e(1)
    obtain h' acc' where "dict_loop_h n (set_item h1 result key (PRef (length h))) result ivs pk = Some h'"
      "length h \<le> length h'" "take result h' = take result h"
      "lookup_obj h' result = Some (PDict acc')"
      "repr_items {a. result < a} h' acc'
         (sanitize_dict_loop kvs pk (AList.update key (JObj (sanitize_dict d key)) accj))"
      by auto
    then show ?thesis using items k kv JObj p lp c
      by (simp add: sanitize_dict_def)
  next
    case (JArr xs)
    from rv kv JArr obtain p vsp where p: "snd iv = PRef p" and pl: "p < result"
      and lp: "lookup_obj h p = Some (PList vsp)"
      by (auto split: pval.splits option.splits pobj.splits)
    have "repr_in {a. a < result} h (PRef p) (JArr xs)" using rv kv JArr p by simp
    then have "repr_in {a. a < length h} h (PRef p) (JArr xs)"
      by (rule repr_mono(1)) (use Cons.prems(1) in auto)
    with L dj JArr obtain h1 where
      c: "sanitize_list_h n h key p = Some (h1, length h)"
      and e: "length h < length h1" "take (length h) h1 = h"
      and rn: "repr_in {a. length h \<le> a} h1 (PRef (length h)) (JArr (sanitize_list key xs))"
      unfolding list_spec_def by blast
    have new: "repr_in {a. result < a} h1 (PRef (length h)) (JArr (sanitize_list key xs))"
      using rn by (rule repr_mono(1)) (use Cons.prems(1) in auto)
    from step[OF _ e(2) new refl] e(1)
    obtain h' acc' where "dict_loop_h n (set_item h1 result key (PRef (length h))) result ivs pk = Some h'"
      "length h \<le> length h'" "take result h' = take result h"
      "lookup_obj h' result = Some (PDict acc')"
      "repr_items {a. result < a} h' acc'
         (sanitize_dict_loop kvs pk (AList.update key (JArr (sanitize_list key xs)) accj))"
      by auto
    then show ?thesis using items k kv JArr p lp c
      by (simp add: sanitize_list_def)
  qed
qed

lemma list_step:
  assumes r: "result < length h"
    and acc: "lookup_obj h result = Some (PList acc)"
    and ra: "repr_list {a. result < a} h acc accj"
    and ri: "repr_list {a. a < result} h vs xs"
    and ext: "length h \<le> length h1" "take (length h) h1 = h"
    and new: "repr_in {a. result < a} h1 v j"
  shows "result < length (append_item h1 result v)"
    and "lookup_obj (append_item h1 result v) result = Some (PList (acc @ [v]))"
    and "repr_list {a. result < a} (append_item h1 result v) (acc @ [v]) (accj @ [j])"
    and "repr_list {a. a < result} (append_item h1 result v) vs xs"
    and "take result (append_item h1 result v) = take result h"
    and "length h \<le> length (append_item h1 result v)"
proof -
  let ?h2 = "append_item h1 result v"
  have l1: "\<And>a. a < length h \<Longrightarrow> lookup_obj h1 a = lookup_obj h a"
    using ext(2) by (rule lookup_prefix)
  have keep: "\<And>a obj. a \<noteq> result \<Longrightarrow> lookup_obj h a = Some obj \<Longrightarrow> lookup_obj ?h2 a = Some obj"
    using l1 lookup_Some_less by (simp add: append_item_facts(3))
  show "result < length ?h2" using r ext(1) by (simp add: append_item_facts(1))
  show "length h \<le> length ?h2" using ext(1) by (simp add: append_item_facts(1))
  have "lookup_obj h1 result = Some (PList acc)" using l1[OF r] acc by simp
  then show "lookup_obj ?h2 result = Some (PList (acc @ [v]))"
    by (rule append_item_facts(4))
  have "repr_list {a. result < a} ?h2 acc accj"
    using ra by (rule repr_frame(3)) (simp add: keep)
  moreover have "repr_in {a. result < a} ?h2 v j"
    using new by (rule repr_frame(1)) (simp add: append_item_facts(3))
  ultimately show "repr_list {a. result < a} ?h2 (acc @ [v]) (accj @ [j])"
    by (rule repr_list_append)
  show "repr_list {a. a < result} ?h2 vs xs"
    using ri by (rule repr_frame(3)) (simp add: keep)
  have "take result (take (length h) h1) = take result h1" using r by (simp add: min_def)
  then have "take result h1 = take result h" by (simp only: ext(2))
  then show "take result ?h2 = take result h" by (simp add: append_item_facts(2))
qed

lemma sanitize_list_loop_scalar:
  assumes "(\<forall>d. j \<noteq> JObj d)" "(\<forall>xs. j \<noteq> JArr xs)"
  shows "sanitize_list_loop pk (j # rest) acc =
         sanitize_list_loop pk rest (acc @ [sanitize_value pk j])"
  using assms by (cases j) simp_all

lemma scalar_item_result:
  assumes "(\<forall>d. j \<noteq> JObj d)" "(\<forall>xs. j \<noteq> JArr xs)"
  shows "repr_in A h (scalar_pval (sanitize_value k j)) (sanitize_value k j)"
  using sanitize_value_scalar[of j k] assms by (simp add: repr_scalar)

lemma list_loop_refines:
  assumes D: "dict_spec n" and L: "list_spec n"
  shows "result < length h \<Longrightarrow> lookup_obj h result = Some (PList acc) \<Longrightarrow>
     repr_list {a. result < a} h acc accj \<Longrightarrow> repr_list {a. a < result} h vs xs \<Longrightarrow>
     depth_list xs \<le> n \<Longrightarrow>
     \<exists>h' acc'. list_loop_h n h result pk vs = Some h' \<and> length h \<le> length h'
        \<and> take result h' = take result h
        \<and> lookup_obj h' result = Some (PList acc')
        \<and> repr_list {a. result < a} h' acc' (sanitize_list_loop pk xs accj)"
proof (induction xs arbitrary: vs h acc accj)
  case Nil
  then show ?case by simp
next
  case (Cons j xs)
  from Cons.prems(4) obtain v0 vs0 where vs: "vs = v0 # vs0"
    and rv: "repr_in {a. a < result} h v0 j"
    and ri: "repr_list {a. a < result} h vs0 xs"
    by (cases vs) auto
  have dj: "depth j \<le> n" and dk: "depth_list xs \<le> n" using Cons.prems(5) by simp_all
  have step: "\<exists>h' acc'. list_loop_h n h2 result pk vs0 = Some h' \<and> length h \<le> length h'
        \<and> take result h' = take result h
        \<and> lookup_obj h' result = Some (PList acc')
        \<and> repr_list {a. result < a} h' acc' (sanitize_list_loop pk xs (accj @ [j']))"
    if ext: "length h \<le> length h1" "take (length h) h1 = h"
      and new: "repr_in {a. result < a} h1 v j'"
      and h2: "h2 = append_item h1 result v"
    for h1 h2 v j'
  proof -
    note s = list_step[OF Cons.prems(1) Cons.prems(2) Cons.prems(3) ri ext new]
    from Cons.IH[OF s(1)[folded h2] s(2)[folded h2] s(3)[folded h2] s(4)[folded h2] dk]
    obtain h' acc' where "list_loop_h n h2 result pk vs0 = Some h'" "length h2 \<le> length h'"
      "take result h' = take result h2" "lookup_obj h' result = Some (PList acc')"
      "repr_list {a. result < a} h' acc' (sanitize_list_loop pk xs (accj @ [j']))"
      by blast
    then show ?thesis using s(5)[folded h2] s(6)[folded h2] by auto
  qed
  consider (JObj) d where "j = JObj d" | (JArr) ys where "j = JArr ys"
    | (scalar) "\<forall>d. j \<noteq> JObj d" "\<forall>xs. j \<noteq> JArr xs"
    by blast
  then show ?case
  proof cases
    case scalar
    have nr: "\<forall>p. v0 \<noteq> PRef p"
      using rv scalar by (cases j) auto
    have sj: "scalar_json v0 = j"
      using repr_scalar_json[of "{a. a < result}" h v0 j] rv nr by simp
    let ?j' = "sanitize_value pk j"
    have new: "repr_in {a. result < a} h (scalar_pval ?j') ?j'"
      using scalar by (rule scalar_item_result)
    have e: "length h \<le> length h" "take (length h) h = h" by simp_all
    from step[OF e new refl]
    obtain h' acc' where "list_loop_h n (append_item h result (scalar_pval ?j')) result pk vs0 = Some h'"
      "length h \<le> length h'" "take result h' = take result h"
      "lookup_obj h' result = Some (PList acc')"
      "repr_list {a. result < a} h' acc' (sanitize_list_loop pk xs (accj @ [?j']))"
      by auto
    moreover have "list_loop_h n h result pk vs =
        list_loop_h n (append_item h result (scalar_pval ?j')) result pk vs0"
      using vs nr sj by (cases v0) simp_all
    moreover have "sanitize_list_loop pk (j # xs) accj =
        sanitize_list_loop pk xs (accj @ [?j'])"
      using scalar by (rule sanitize_list_loop_scalar)
    ultimately show ?thesis by auto
  next
    case (JObj d)
    from rv JObj obtain p itp where p: "v0 = PRef p" and pl: "p < result"
      and lp: "lookup_obj h p = Some (PDict itp)"
      by (auto split: pval.splits option.splits pobj.splits)
    have "repr_in {a. a < result} h (PRef p) (JObj d)" using rv JObj p by simp
    then have "repr_in {a. a < length h} h (PRef p) (JObj d)"
      by (rule repr_mono(1)) (use Cons.prems(1) in auto)
    with D dj JObj obtain h1 where
      c: "sanitize_dict_h n h p pk = Some (h1, length h)"
      and e: "length h < length h1" "take (length h) h1 = h"
      and rn: "repr_in {a. length h \<le> a} h1 (PRef (length h)) (JObj (sanitize_dict d pk))"
      unfolding dict_spec_def by blast
    have new: "repr_in {a. result < a} h1 (PRef (length h)) (JObj (sanitize_dict d pk))"
      using rn by (rule repr_mono(1)) (use Cons.prems(1) in auto)
    from step[OF _ e(2) new refl] e(1)
    obtain h' acc' where "list_loop_h n (append_item h1 result (PRef (length h))) result pk vs0 = Some h'"
      "length h \<le> length h'" "take result h' = take result h"
      "lookup_obj h' result = Some (PList acc')"
      "repr_list {a. result < a} h' acc'
         (sanitize_list_loop pk xs (accj @ [JObj (sanitize_dict d pk)]))"
      by auto
    then show ?thesis using vs JObj p lp c
      by (simp add: sanitize_dict_def)
  next
    case (JArr ys)
    from rv JArr obtain p vsp where p: "v0 = PRef p" and pl: "p < result"
      and lp: "lookup_obj h p = Some (PList vsp)"
      by (auto split: pval.splits option.splits pobj.splits)
    have "repr_in {a. a < result} h (PRef p) (JArr ys)" using rv JArr p by simp
    then have "repr_in {a. a < length h} h (PRef p) (JArr ys)"
      by (rule repr_mono(1)) (use Cons.prems(1) in auto)
    with L dj JArr obtain h1 where
      c: "sanitize_list_h n h pk p = Some (h1, length h)"
      and e: "length h < length h1" "take (length h) h1 = h"
      and rn: "repr_in {a. length h \<le> a} h1 (PRef (length h)) (JArr (sanitize_list pk ys))"
      unfolding list_spec_def by blast
    have new: "repr_in {a. result < a} h1 (PRef (length h)) (JArr (sanitize_list pk ys))"
      using rn by (rule repr_mono(1)) (use Cons.prems(1) in auto)
    from step[OF _ e(2) new refl] e(1)
    obtain h' acc' where "list_loop_h n (append_item h1 result (PRef (length h))) result pk vs0 = Some h'"
      "length h \<le> length h'" "take result h' = take result h"
      "lookup_obj h' result = Some (PList acc')"
      "repr_list {a. result < a} h' acc'
         (sanitize_list_loop pk xs (accj @ [JArr (sanitize_list pk ys)]))"
      by auto
    then show ?thesis using vs JArr p lp c
      by (simp add: sanitize_list_def)
  qed
qed

lemma lookup_snoc:
  "lookup_obj (h @ [obj]) (length h) = Some obj"
  "a < length h \<Longrightarrow> lookup_obj (h @ [obj]) a = lookup_obj h a"
  by (simp_all add: lookup_obj_def nth_append)

lemma dict_spec_Suc:
  assumes D: "dict_spec n" and L: "list_spec n"
  shows "dict_spec (Suc n)"
  unfolding dict_spec_def
proof (intro allI impI)
  fix h data pk d
  assume r: "repr_in {a. a < length h} h (PRef data) (JObj d)"
    and dp: "depth (JObj d) \<le> Suc n"
  from r obtain items where lk: "lookup_obj h data = Some (PDict items)"
    and ri: "repr_items {a. a < length h} h items d"
    by (auto split: option.splits pobj.splits)
  let ?h0 = "h @ [PDict []]"
  have keep: "\<And>a obj. a \<in> {a. a < length h} \<Longrightarrow> lookup_obj h a = Some obj
      \<Longrightarrow> lookup_obj ?h0 a = Some obj"
    by (simp add: lookup_snoc(2))
  have ri0: "repr_items {a. a < length h} ?h0 items d"
    using ri keep by (rule repr_frame(2))
  have p1: "length h < length ?h0" by simp
  have p2: "lookup_obj ?h0 (length h) = Some (PDict [])" by (rule lookup_snoc(1))
  have p3: "repr_items {a. length h < a} ?h0 [] []" by simp
  have p5: "depth_items d \<le> n" using dp by simp
  from dict_loop_refines[OF D L p1 p2 p3 ri0 p5, of pk]
  obtain h' acc' where run: "dict_loop_h n ?h0 (length h) items pk = Some h'"
    and len: "length ?h0 \<le> length h'"
    and tk: "take (length h) h' = take (length h) ?h0"
    and lk': "lookup_obj h' (length h) = Some (PDict acc')"
    and rr: "repr_items {a. length h < a} h' acc' (sanitize_dict_loop d pk [])"
    by blast
  have rr': "repr_items {a. length h \<le> a} h' acc' (sanitize_dict_loop d pk [])"
    using rr by (rule repr_mono(2)) auto
  have "sanitize_dict_h (Suc n) h data pk = Some (h', length h)"
    using lk run by simp
  moreover have "length h < length h'" using len by simp
  moreover have "take (length h) h' = h" using tk by simp
  moreover have "repr_in {a. length h \<le> a} h' (PRef (length h)) (JObj (sanitize_dict d pk))"
    using lk' rr' by (simp add: sanitize_dict_def)
  ultimately show "\<exists>h'. sanitize_dict_h (Suc n) h data pk = Some (h', length h)
            \<and> length h < length h' \<and> take (length h) h' = h
            \<and> repr_in {a. length h \<le> a} h' (PRef (length h)) (JObj (sanitize_dict d pk))"
    by blast
qed

lemma list_spec_Suc:
  assumes D: "dict_spec n" and L: "list_spec n"
  shows "list_spec (Suc n)"
  unfolding list_spec_def
proof (intro allI impI)
  fix h data pk xs
  assume r: "repr_in {a. a < length h} h (PRef data) (JArr xs)"
    and dp: "depth (JArr xs) \<le> Suc n"
  from r obtain vs where lk: "lookup_obj h data = Some (PList vs)"
    and ri: "repr_list {a. a < length h} h vs xs"
    by (auto split: option.splits pobj.splits)
  let ?h0 = "h @ [PList []]"
  have keep: "\<And>a obj. a \<in> {a. a < length h} \<Longrightarrow> lookup_obj h a = Some obj
      \<Longrightarrow> lookup_obj ?h0 a = Some obj"
    by (simp add: lookup_snoc(2))
  have ri0: "repr_list {a. a < length h} ?h0 vs xs"
    using ri keep by (rule repr_frame(3))
  have p1: "length h < length ?h0" by simp
  have p2: "lookup_obj ?h0 (length h) = Some (PList [])" by (rule lookup_snoc(1))
  have p3: "repr_list {a. length h < a} ?h0 [] []" by simp
  have p5: "depth_list xs \<le> n" using dp by simp
  from list_loop_refines[OF D L p1 p2 p3 ri0 p5, of pk]
  obtain h' acc' where run: "list_loop_h n ?h0 (length h) pk vs = Some h'"
    and len: "length ?h0 \<le> length h'"
    and tk: "take (length h) h' = take (length h) ?h0"
    and lk': "lookup_obj h' (length h) = Some (PList acc')"
    and rr: "repr_list {a. length h < a} h' acc' (sanitize_list_loop pk xs [])"
    by blast
  have rr': "repr_list {a. length h \<le> a} h' acc' (sanitize_list_loop pk xs [])"
    using rr by (rule repr_mono(3)) auto
  have "sanitize_list_h (Suc n) h pk data = Some (h', length h)"
    using lk run by simp
  moreover have "length h < length h'" using len by simp
  moreover have "take (length h) h' = h" using tk by simp
  moreover have "repr_in {a. length h \<le> a} h' (PRef (length h)) (JArr (sanitize_list pk xs))"
    using lk' rr' by (simp add: sanitize_list_def)
  ultimately show "\<exists>h'. sanitize_list_h (Suc n) h pk data = Some (h', length h)
            \<and> length h < length h' \<and> take (length h) h' = h
            \<and> repr_in {a. length h \<le> a} h' (PRef (length h)) (JArr (sanitize_list pk xs))"
    by blast
qed

lemma sanitize_specs: "dict_spec n \<and> list_spec n"
proof (induction n)
  case 0
  show ?case by (simp add: dict_spec_def list_spec_def)
next
  case (Suc n)
  then show ?case using dict_spec_Suc list_spec_Suc by blast
qed

subsection \<open>Loading and reading back\<close>

lemma alloc_repr:
  "alloc j h = (h', v) \<Longrightarrow>
     length h \<le> length h' \<and> take (length h) h' = h \<and> repr_in {a. a < length h'} h' v j"
  "alloc_items kvs h = (h', items) \<Longrightarrow>
     length h \<le> length h' \<and> take (length h) h' = h \<and> repr_items {a. a < length h'} h' items kvs"
  "alloc_list xs h = (h', vs) \<Longrightarrow>
     length h \<le> length h' \<and> take (length h) h' = h \<and> repr_list {a. a < length h'} h' vs xs"
proof (induction j h and kvs h and xs h arbitrary: h' v and h' items and h' vs
    rule: alloc_alloc_items_alloc_list.induct)
  case (6 kvs h)
  obtain h1 items where a: "alloc_items kvs h = (h1, items)" by (cases "alloc_items kvs h")
  from 6(1)[OF a] have l: "length h \<le> length h1" and t: "take (length h) h1 = h"
    and r: "repr_items {a. a < length h1} h1 items kvs" by simp_all
  from 6(2) a have h': "h' = h1 @ [PDict items]" and v: "v = PRef (length h1)" by simp_all
  have "repr_items {a. a < length h1} h' items kvs"
    using r unfolding h' by (rule repr_frame(2)) (simp add: lookup_snoc(2))
  then have "repr_items {a. a < length h'} h' items kvs"
    by (rule repr_mono(2)) (auto simp add: h')
  then have "repr_in {a. a < length h'} h' v (JObj kvs)"
    by (simp add: h' v lookup_snoc(1))
  moreover have "take (length h) h' = h" using l t by (simp add: h')
  ultimately show ?case using l by (simp add: h')
next
  case (7 xs h)
  obtain h1 vs where a: "alloc_list xs h = (h1, vs)" by (cases "alloc_list xs h")
  from 7(1)[OF a] have l: "length h \<le> length h1" and t: "take (length h) h1 = h"
    and r: "repr_list {a. a < length h1} h1 vs xs" by simp_all
  from 7(2) a have h': "h' = h1 @ [PList vs]" and v: "v = PRef (length h1)" by simp_all
  have "repr_list {a. a < length h1} h' vs xs"
    using r unfolding h' by (rule repr_frame(3)) (simp add: lookup_snoc(2))
  then have "repr_list {a. a < length h'} h' vs xs"
    by (rule repr_mono(3)) (auto simp add: h')
  then have "repr_in {a. a < length h'} h' v (JArr xs)"
    by (simp add: h' v lookup_snoc(1))
  moreover have "take (length h) h' = h" using l t by (simp add: h')
  ultimately show ?case using l by (simp add: h')
next
  case (9 kv kvs h)
  obtain h1 v1 where a: "alloc (snd kv) h = (h1, v1)" by (cases "alloc (snd kv) h")
  obtain h2 ivs where b: "alloc_items kvs h1 = (h2, ivs)" by (cases "alloc_items kvs h1")
  from 9(1)[OF a] have l1: "length h \<le> length h1" and t1: "take (length h) h1 = h"
    and r1: "repr_in {a. a < length h1} h1 v1 (snd kv)" by simp_all
  from 9(2)[OF a[symmetric] b] have l2: "length h1 \<le> length h2" and t2: "take (length h1) h2 = h1"
    and r2: "repr_items {a. a < length h2} h2 ivs kvs" by simp_all
  from 9(3) a b have h': "h' = h2" and it: "items = (fst kv, v1) # ivs" by simp_all
  have "repr_in {a. a < length h1} h2 v1 (snd kv)"
    using r1 by (rule repr_frame(1)) (simp add: lookup_prefix[OF t2])
  then have r1': "repr_in {a. a < length h2} h2 v1 (snd kv)"
    by (rule repr_mono(1)) (use l2 in auto)
  have "take (length h) (take (length h1) h2) = take (length h) h2" using l1 by (simp add: min_def)
  then have "take (length h) h2 = h" using t1 by (simp only: t2)
  then show ?case using l1 l2 r1' r2 by (simp add: h' it)
next
  case (11 x xs h)
  obtain h1 v1 where a: "alloc x h = (h1, v1)" by (cases "alloc x h")
  obtain h2 vs1 where b: "alloc_list xs h1 = (h2, vs1)" by (cases "alloc_list xs h1")
  from 11(1)[OF a] have l1: "length h \<le> length h1" and t1: "take (length h) h1 = h"
    and r1: "repr_in {a. a < length h1} h1 v1 x" by simp_all
  from 11(2)[OF a[symmetric] b] have l2: "length h1 \<le> length h2" and t2: "take (length h1) h2 = h1"
    and r2: "repr_list {a. a < length h2} h2 vs1 xs" by simp_all
  from 11(3) a b have h': "h' = h2" and it: "vs = v1 # vs1" by simp_all
  have "repr_in {a. a < length h1} h2 v1 x"
    using r1 by (rule repr_frame(1)) (simp add: lookup_prefix[OF t2])
  then have r1': "repr_in {a. a < length h2} h2 v1 x"
    by (rule repr_mono(1)) (use l2 in auto)
  have "take (length h) (take (length h1) h2) = take (length h) h2" using l1 by (simp add: min_def)
  then have "take (length h) h2 = h" using t1 by (simp only: t2)
  then show ?case using l1 l2 r1' r2 by (simp add: h' it)
qed auto

lemma read_items:
  assumes IH: "\<And>v j. repr_in A h v j \<Longrightarrow> depth j \<le> n \<Longrightarrow> read_h n h v = Some j"
  shows "repr_items A h items kvs \<Longrightarrow> depth_items kvs \<le> n \<Longrightarrow>
     those (map (\<lambda>kv. map_option (Pair (fst kv)) (read_h n h (snd kv))) items) = Some kvs"
proof (induction kvs arbitrary: items)
  case Nil
  then show ?case by simp
next
  case (Cons kv kvs)
  then obtain iv ivs where i: "items = iv # ivs" "fst iv = fst kv"
    "repr_in A h (snd iv) (snd kv)" "repr_items A h ivs kvs"
    by (cases items) auto
  have "read_h n h (snd iv) = Some (snd kv)" using i(3) Cons.prems(2) by (intro IH) simp_all
  moreover have "those (map (\<lambda>kv. map_option (Pair (fst kv)) (read_h n h (snd kv))) ivs) = Some kvs"
    using i(4) Cons.prems(2) by (intro Cons.IH) simp_all
  ultimately show ?case using i(1,2) by simp
qed

lemma read_list:
  assumes IH: "\<And>v j. repr_in A h v j \<Longrightarrow> depth j \<le> n \<Longrightarrow> read_h n h v = Some j"
  shows "repr_list A h vs xs \<Longrightarrow> depth_list xs \<le> n \<Longrightarrow>
     those (map (read_h n h) vs) = Some xs"
proof (induction xs arbitrary: vs)
  case Nil
  then show ?case by simp
next
  case (Cons x xs)
  then obtain v vs' where i: "vs = v # vs'" "repr_in A h v x" "repr_list A h vs' xs"
    by (cases vs) auto
  have "read_h n h v = Some x" using i(2) Cons.prems(2) by (intro IH) simp_all
  moreover have "those (map (read_h n h) vs') = Some xs"
    using i(3) Cons.prems(2) by (intro Cons.IH) simp_all
  ultimately show ?case using i(1) by simp
qed

lemma read_repr: "repr_in A h v j \<Longrightarrow> depth j \<le> n \<Longrightarrow> read_h n h v = Some j"
proof (induction n arbitrary: v j)
  case 0
  then show ?case by (cases j) simp_all
next
  case (Suc n)
  show ?case
  proof (cases j)
    case (JObj kvs)
    with Suc.prems obtain a items where v: "v = PRef a" "lookup_obj h a = Some (PDict items)"
      "repr_items A h items kvs"
      by (auto split: pval.splits option.splits pobj.splits)
    have "those (map (\<lambda>kv. map_option (Pair (fst kv)) (read_h n h (snd kv))) items) = Some kvs"
      using Suc.IH v(3) by (rule read_items) (use Suc.prems(2) JObj in simp_all)
    then show ?thesis using v JObj by simp
  next
    case (JArr xs)
    with Suc.prems obtain a vs where v: "v = PRef a" "lookup_obj h a = Some (PList vs)"
      "repr_list A h vs xs"
      by (auto split: pval.splits option.splits pobj.splits)
    have "those (map (read_h n h) vs) = Some xs"
      using Suc.IH v(3) by (rule read_list) (use Suc.prems(2) JArr in simp_all)
    then show ?thesis using v JArr by simp
  qed (use Suc.prems in simp_all)
qed

lemma depth_items_update:
  "depth_items (AList.update k v acc) \<le> max (depth v) (depth_items acc)"
  by (induction acc) (auto simp add: max_def)

lemma depth_list_append: "depth_list (acc @ [v]) = max (depth v) (depth_list acc)"
  by (induction acc) (auto simp add: max_def)

lemma depth_sanitize_value: "depth (sanitize_value k v) \<le> depth v"
  by (cases v) (simp_all add: sanitize_value_def is_azure_url_def)

lemma depth_scalar_entry:
  "depth (if is_legacy_container pk k v then JStr CONTAINER_PLACEHOLDER else sanitize_value k v)
     \<le> depth v"
  using depth_sanitize_value[of k v] by simp

lemma depth_dict_entry:
  assumes "depth_items (sanitize_dict_loop rest pk (AList.update k e result))
      \<le> max (depth_items rest) (depth_items (AList.update k e result))"
    and "depth e \<le> depth v"
  shows "depth_items (sanitize_dict_loop rest pk (AList.update k e result))
      \<le> max (depth_items ((k, v) # rest)) (depth_items result)"
  using assms depth_items_update[of k e result] by (simp add: max_def split: if_splits)

lemma depth_list_entry:
  assumes "depth_list (sanitize_list_loop pk rest (result @ [e]))
      \<le> max (depth_list rest) (depth_list (result @ [e]))"
    and "depth e \<le> depth v"
  shows "depth_list (sanitize_list_loop pk rest (result @ [e]))
      \<le> max (depth_list (v # rest)) (depth_list result)"
  using assms by (simp add: depth_list_append max_def split: if_splits)

lemma depth_sanitize_loop:
  "depth_items (sanitize_dict_loop kvs pk acc) \<le> max (depth_items kvs) (depth_items acc)"
  "depth_list (sanitize_list_loop pk xs accl) \<le> max (depth_list xs) (depth_list accl)"
proof (induction kvs pk acc and pk xs accl rule: sanitize_dict_loop_sanitize_list_loop.induct)
  case (2 key d rest parent_key result)
  have "depth (JObj (sanitize_dict_loop d key [])) \<le> depth (JObj d)" using 2(1) by simp
  with 2(2) show ?case unfolding sanitize_dict_loop.simps by (rule depth_dict_entry)
next
  case (3 key xs rest parent_key result)
  have "depth (JArr (sanitize_list_loop key xs [])) \<le> depth (JArr xs)" using 3(1) by simp
  with 3(2) show ?case unfolding sanitize_dict_loop.simps by (rule depth_dict_entry)
next
  case (6 parent_key d rest result)
  have "depth (JObj (sanitize_dict_loop d parent_key [])) \<le> depth (JObj d)" using 6(1) by simp
  with 6(2) show ?case unfolding sanitize_list_loop.simps by (rule depth_list_entry)
next
  case (7 parent_key xs rest result)
  have "depth (JArr (sanitize_list_loop parent_key xs [])) \<le> depth (JArr xs)" using 7(1) by simp
  with 7(2) show ?case unfolding sanitize_list_loop.simps by (rule depth_list_entry)
qed (simp, (simp only: sanitize_dict_loop.simps, erule depth_dict_entry, rule depth_scalar_entry)+,
     simp, (simp only: sanitize_list_loop.simps, erule depth_list_entry, rule depth_sanitize_value)+)

subsection \<open>The input is left unchanged\<close>

lemma sanitize_dict_h_frame:
  assumes r: "repr_in {a. a < length h} h (PRef data) (JObj d)" and dp: "depth (JObj d) \<le> n"
  shows "\<exists>h'. sanitize_dict_h n h data pk = Some (h', length h)
     \<and> length h < length h' \<and> take (length h) h' = h
     \<and> repr_in {a. a < length h} h' (PRef data) (JObj d)
     \<and> repr_in {a. length h \<le> a} h' (PRef (length h)) (JObj (sanitize_dict d pk))"
proof -
  have "dict_spec n" using sanitize_specs by simp
  with r dp obtain h' where c: "sanitize_dict_h n h data pk = Some (h', length h)"
    "length h < length h'" "take (length h) h' = h"
    "repr_in {a. length h \<le> a} h' (PRef (length h)) (JObj (sanitize_dict d pk))"
    unfolding dict_spec_def by blast
  have "repr_in {a. a < length h} h' (PRef data) (JObj d)"
    using r by (rule repr_frame(1)) (simp add: lookup_prefix[OF c(3)])
  with c show ?thesis by blast
qed

lemma sanitize_list_h_frame:
  assumes r: "repr_in {a. a < length h} h (PRef data) (JArr xs)" and dp: "depth (JArr xs) \<le> n"
  shows "\<exists>h'. sanitize_list_h n h pk data = Some (h', length h)
     \<and> length h < length h' \<and> take (length h) h' = h
     \<and> repr_in {a. a < length h} h' (PRef data) (JArr xs)
     \<and> repr_in {a. length h \<le> a} h' (PRef (length h)) (JArr (sanitize_list pk xs))"
proof -
  have "list_spec n" using sanitize_specs by simp
  with r dp obtain h' where c: "sanitize_list_h n h pk data = Some (h', length h)"
    "length h < length h'" "take (length h) h' = h"
    "repr_in {a. length h \<le> a} h' (PRef (length h)) (JArr (sanitize_list pk xs))"
    unfolding list_spec_def by blast
  have "repr_in {a. a < length h} h' (PRef data) (JArr xs)"
    using r by (rule repr_frame(1)) (simp add: lookup_prefix[OF c(3)])
  with c show ?thesis by blast
qed

lemma depth_sanitize_dict: "depth (JObj (sanitize_dict d pk)) \<le> depth (JObj d)"
  using depth_sanitize_loop(1)[of d pk "[]"] by (simp add: sanitize_dict_def)

lemma depth_sanitize_list: "depth (JArr (sanitize_list pk xs)) \<le> depth (JArr xs)"
  using depth_sanitize_loop(2)[of pk xs "[]"] by (simp add: sanitize_list_def)

lemma repr_chars: "repr_list A h (map (\<lambda>c. PStr [c]) s) (map (\<lambda>c. JStr [c]) s)"
  by (induction s) simp_all

lemma depth_chars: "depth_list (map (\<lambda>c. JStr [c]) s) = 0"
  by (induction s) simp_all

lemma sanitize_data_refines:
  assumes a: "alloc j [] = (h, data)" and dp: "depth j \<le> limit" and pos: "0 < limit"
  shows "case sanitize_document j of
           None \<Rightarrow> sanitize_data limit h data = Inl NotIterable
         | Some j' \<Rightarrow> (\<exists>h' s. sanitize_data limit h data = Inr (h', s)
              \<and> read_h limit h' data = Some j \<and> read_h limit h' s = Some j')"
proof -
  from alloc_repr(1)[OF a] have r: "repr_in {a. a < length h} h data j" by simp
  show ?thesis
  proof (cases j)
    case (JObj d)
    with r obtain p items where p: "data = PRef p" "lookup_obj h p = Some (PDict items)"
      by (auto split: pval.splits option.splits pobj.splits)
    from sanitize_dict_h_frame[of h p d limit "''''"] r dp JObj p(1)
    obtain h' where c: "sanitize_dict_h limit h p '''' = Some (h', length h)"
      "repr_in {a. a < length h} h' (PRef p) (JObj d)"
      "repr_in {a. length h \<le> a} h' (PRef (length h)) (JObj (sanitize_dict d ''''))"
      by blast
    have "read_h limit h' (PRef p) = Some (JObj d)"
      using c(2) by (rule read_repr) (use dp JObj in simp)
    moreover have "read_h limit h' (PRef (length h)) = Some (JObj (sanitize_dict d ''''))"
      using c(3) by (rule read_repr) (use dp JObj depth_sanitize_dict[of d "''''"] in simp)
    moreover have "sanitize_data limit h data = Inr (h', PRef (length h))"
      using p c(1) by (simp add: sanitize_data_def)
    ultimately show ?thesis using JObj p(1) by (simp add: sanitize_document_def)
  next
    case (JArr xs)
    with r obtain p vs where p: "data = PRef p" "lookup_obj h p = Some (PList vs)"
      by (auto split: pval.splits option.splits pobj.splits)
    from sanitize_list_h_frame[of h p xs limit "''''"] r dp JArr p(1)
    obtain h' where c: "sanitize_list_h limit h '''' p = Some (h', length h)"
      "repr_in {a. a < length h} h' (PRef p) (JArr xs)"
      "repr_in {a. length h \<le> a} h' (PRef (length h)) (JArr (sanitize_list '''' xs))"
      by blast
    have "read_h limit h' (PRef p) = Some (JArr xs)"
      using c(2) by (rule read_repr) (use dp JArr in simp)
    moreover have "read_h limit h' (PRef (length h)) = Some (JArr (sanitize_list '''' xs))"
      using c(3) by (rule read_repr) (use dp JArr depth_sanitize_list[of "''''" xs] in simp)
    moreover have "sanitize_data limit h data = Inr (h', PRef (length h))"
      using p c(1) by (simp add: sanitize_data_def)
    ultimately show ?thesis using JArr p(1) by (simp add: sanitize_document_def)
  next
    case (JStr s)
    from a JStr have hd: "h = []" "data = PStr s" by simp_all
    from pos obtain n where n: "limit = Suc n" by (cases limit) auto
    let ?vs = "map (\<lambda>c. PStr [c]) s" and ?xs = "map (\<lambda>c. JStr [c]) s"
    have D: "dict_spec n" and L: "list_spec n" using sanitize_specs by simp_all
    have p1: "0 < length [PList []]" by simp
    have p2: "lookup_obj [PList []] 0 = Some (PList [])" by (simp add: lookup_obj_def)
    have p3: "repr_list {a. 0 < a} [PList []] [] []" by simp
    have p4: "repr_list {a. a < 0} [PList []] ?vs ?xs" by (rule repr_chars)
    have p5: "depth_list ?xs \<le> n" by (simp add: depth_chars)
    from list_loop_refines[OF D L p1 p2 p3 p4 p5, of "''''"]
    obtain h' acc' where c: "list_loop_h n [PList []] 0 '''' ?vs = Some h'"
      "lookup_obj h' 0 = Some (PList acc')"
      "repr_list {a. 0 < a} h' acc' (sanitize_list_loop '''' ?xs [])"
      by blast
    have "repr_list UNIV h' acc' (sanitize_list_loop '''' ?xs [])"
      using c(3) by (rule repr_mono(3)) simp
    then have rr: "repr_in UNIV h' (PRef 0) (JArr (sanitize_list '''' ?xs))"
      using c(2) by (simp add: sanitize_list_def)
    have "depth (JArr (sanitize_list '''' ?xs)) \<le> depth (JArr ?xs)"
      by (rule depth_sanitize_list)
    then have "depth (JArr (sanitize_list '''' ?xs)) \<le> limit"
      by (simp add: depth_chars n)
    with rr have "read_h limit h' (PRef 0) = Some (JArr (sanitize_list '''' ?xs))"
      by (rule read_repr)
    moreover have "sanitize_data limit h data = Inr (h', PRef 0)"
      using c(1) by (simp add: sanitize_data_def hd n)
    ultimately show ?thesis using JStr hd by (simp add: sanitize_document_def)
  qed (use a in \<open>auto simp add: sanitize_document_def sanitize_data_def\<close>)
qed

lemma sanitize_file_no_write:
  "snd (sanitize_file loads dumps dump_json limit fs file_path True) = fs"
  by (simp add: sanitize_file_def split: option.splits prod.splits sum.splits)

lemma sanitize_file_dry_run:
  assumes f: "fs file_path = Some text" and l: "loads text = Some j"
    and dp: "depth j \<le> limit" and pos: "0 < limit"
  shows "sanitize_file loads dumps dump_json limit fs file_path True =
     (case sanitize_document j of
        None \<Rightarrow> (Raised NotIterable, fs)
      | Some j' \<Rightarrow> if dumps j \<noteq> dumps j' then (Returned True WouldModify, fs)
                   else (Returned False NoChanges, fs))"
proof -
  obtain h data where a: "alloc j [] = (h, data)" by (cases "alloc j []")
  note s = sanitize_data_refines[OF a dp pos]
  show ?thesis
  proof (cases "sanitize_document j")
    case None
    with s have "sanitize_data limit h data = Inl NotIterable" by simp
    then show ?thesis using f l a None by (simp add: sanitize_file_def)
  next
    case (Some j')
    with s obtain h' sn where "sanitize_data limit h data = Inr (h', sn)"
      "read_h limit h' data = Some j" "read_h limit h' sn = Some j'"
      by auto
    then show ?thesis using f l a Some by (simp add: sanitize_file_def)
  qed
qed

lemma sanitize_file_write:
  assumes f: "fs file_path = Some text" and l: "loads text = Some j"
    and dp: "depth j \<le> limit" and pos: "0 < limit"
  shows "sanitize_file loads dumps dump_json limit fs file_path False =
     (case sanitize_document j of
        None \<Rightarrow> (Raised NotIterable, fs)
      | Some j' \<Rightarrow> (Returned True Sanitized, fs(file_path \<mapsto> dump_json j')))"
proof -
  obtain h data where a: "alloc j [] = (h, data)" by (cases "alloc j []")
  note s = sanitize_data_refines[OF a dp pos]
  show ?thesis
  proof (cases "sanitize_document j")
    case None
    with s have "sanitize_data limit h data = Inl NotIterable" by simp
    then show ?thesis using f l a None by (simp add: sanitize_file_def)
  next
    case (Some j')
    with s obtain h' sn where "sanitize_data limit h data = Inr (h', sn)"
      "read_h limit h' data = Some j" "read_h limit h' sn = Some j'"
      by auto
    then show ?thesis using f l a Some by (simp add: sanitize_file_def)
  qed
qed

text \<open>
  Claim C10: \<^verbatim>\<open>sanitize_dict\<close> and \<^verbatim>\<open>sanitize_list\<close> leave their argument as it was, at
  every level, and return a new document. In a store \<open>h\<close> that holds the document \<open>d\<close> at
  \<open>data\<close>, the call returns, with enough depth allowed; every object of \<open>h\<close> is in the new
  store \<open>h'\<close> as it was (\<open>take (length h) h' = h\<close>), so \<open>data\<close> still holds \<open>d\<close>; the result
  is the object at the first new address, it is made of new objects only, and it holds the
  document that the transform computes. Hence a dry run of \<^verbatim>\<open>sanitize_file\<close>, which
  serialises the loaded document after the transform has run on it, returns whether the
  serialisations of the document and of its sanitized form differ; and no dry run writes a
  file.
\<close>

theorem sanitize_leaves_input_unchanged:
  "(\<forall>h data d pk n.
      repr_in {a. a < length h} h (PRef data) (JObj d) \<and> depth (JObj d) \<le> n \<longrightarrow>
      (\<exists>h'. sanitize_dict_h n h data pk = Some (h', length h)
         \<and> length h < length h' \<and> take (length h) h' = h
         \<and> repr_in {a. a < length h} h' (PRef data) (JObj d)
         \<and> repr_in {a. length h \<le> a} h' (PRef (length h)) (JObj (sanitize_dict d pk))))
   \<and> (\<forall>h data xs pk n.
      repr_in {a. a < length h} h (PRef data) (JArr xs) \<and> depth (JArr xs) \<le> n \<longrightarrow>
      (\<exists>h'. sanitize_list_h n h pk data = Some (h', length h)
         \<and> length h < length h' \<and> take (length h) h' = h
         \<and> repr_in {a. a < length h} h' (PRef data) (JArr xs)
         \<and> repr_in {a. length h \<le> a} h' (PRef (length h)) (JArr (sanitize_list pk xs))))
   \<and> (\<forall>loads dumps dump_json limit fs file_path content j.
      fs file_path = Some content \<and> loads content = Some j \<and> depth j \<le> limit \<and> 0 < limit \<longrightarrow>
      sanitize_file loads dumps dump_json limit fs file_path True =
        (case sanitize_document j of
           None \<Rightarrow> (Raised NotIterable, fs)
         | Some j' \<Rightarrow> if dumps j \<noteq> dumps j' then (Returned True WouldModify, fs)
                      else (Returned False NoChanges, fs)))
   \<and> (\<forall>loads dumps dump_json limit fs file_path.
      snd (sanitize_file loads dumps dump_json limit fs file_path True) = fs)"
proof (intro conjI allI impI)
  fix h data d pk n
  assume "repr_in {a. a < length h} h (PRef data) (JObj d) \<and> depth (JObj d) \<le> n"
  then show "\<exists>h'. sanitize_dict_h n h data pk = Some (h', length h)
         \<and> length h < length h' \<and> take (length h) h' = h
         \<and> repr_in {a. a < length h} h' (PRef data) (JObj d)
         \<and> repr_in {a. length h \<le> a} h' (PRef (length h)) (JObj (sanitize_dict d pk))"
    using sanitize_dict_h_frame[of h data d n pk] by simp
next
  fix h data xs pk n
  assume "repr_in {a. a < length h} h (PRef data) (JArr xs) \<and> depth (JArr xs) \<le> n"
  then show "\<exists>h'. sanitize_list_h n h pk data = Some (h', length h)
         \<and> length h < length h' \<and> take (length h) h' = h
         \<and> repr_in {a. a < length h} h' (PRef data) (JArr xs)
         \<and> repr_in {a. length h \<le> a} h' (PRef (length h)) (JArr (sanitize_list pk xs))"
    using sanitize_list_h_frame[of h data xs n pk] by simp
next
  fix loads dumps dump_json limit and fs :: files and file_path content j
  assume "fs file_path = Some content \<and> loads content = Some j \<and> depth j \<le> limit \<and> 0 < limit"
  then show "sanitize_file loads dumps dump_json limit fs file_path True =
        (case sanitize_document j of
           None \<Rightarrow> (Raised NotIterable, fs)
         | Some j' \<Rightarrow> if dumps j \<noteq> dumps j' then (Returned True WouldModify, fs)
                      else (Returned False NoChanges, fs))"
    using sanitize_file_dry_run[of fs file_path content loads j limit dumps dump_json] by simp
next
  fix loads dumps dump_json limit and fs :: files and file_path
  show "snd (sanitize_file loads dumps dump_json limit fs file_path True) = fs"
    by (rule sanitize_file_no_write)
qed

theorem sanitize_leaves_input_unchanged_witness:
  "(repr_in {a. a < length [PList [PStr ''a''], PDict [(''apiKey'', PStr ''abc''), (''tags'', PRef 0)]]}
      [PList [PStr ''a''], PDict [(''apiKey'', PStr ''abc''), (''tags'', PRef 0)]] (PRef 1)
      (JObj [(''apiKey'', JStr ''abc''), (''tags'', JArr [JStr ''a''])])
    \<and> depth (JObj [(''apiKey'', JStr ''abc''), (''tags'', JArr [JStr ''a''])]) \<le> 2
    \<and> (\<exists>h'. sanitize_dict_h 2 [PList [PStr ''a''], PDict [(''apiKey'', PStr ''abc''), (''tags'', PRef 0)]] 1 ''''
           = Some (h', 2)
         \<and> take 2 h' = [PList [PStr ''a''], PDict [(''apiKey'', PStr ''abc''), (''tags'', PRef 0)]]
         \<and> repr_in {a. 2 \<le> a} h' (PRef 2)
             (JObj [(''apiKey'', JStr REDACTED_PLACEHOLDER), (''tags'', JArr [JStr ''a''])])))
   \<and> (repr_in {a. a < length [PList [PStr ''a'']]} [PList [PStr ''a'']] (PRef 0) (JArr [JStr ''a''])
    \<and> depth (JArr [JStr ''a'']) \<le> 1
    \<and> (\<exists>h'. sanitize_list_h 1 [PList [PStr ''a'']] ''tags'' 0 = Some (h', 1)
         \<and> take 1 h' = [PList [PStr ''a'']]
         \<and> repr_in {a. 1 \<le> a} h' (PRef 1) (JArr [JStr ''a''])))
   \<and> ([''ks.json'' \<mapsto> ''text''] ''ks.json'' = Some ''text''
    \<and> (\<lambda>t. Some (JObj [(''apiKey'', JStr ''abc'')])) ''text'' = Some (JObj [(''apiKey'', JStr ''abc'')])
    \<and> depth (JObj [(''apiKey'', JStr ''abc'')]) \<le> 1 \<and> (0::nat) < 1
    \<and> sanitize_file (\<lambda>t. Some (JObj [(''apiKey'', JStr ''abc'')]))
         (\<lambda>j. case j of JObj [(k, JStr s)] \<Rightarrow> s | _ \<Rightarrow> []) (\<lambda>j. []) 1
         [''ks.json'' \<mapsto> ''text''] ''ks.json'' True
       = (Returned True WouldModify, [''ks.json'' \<mapsto> ''text'']))"
proof -
  let ?h = "[PList [PStr ''a''], PDict [(''apiKey'', PStr ''abc''), (''tags'', PRef 0)]]"
  let ?d = "[(''apiKey'', JStr ''abc''), (''tags'', JArr [JStr ''a''])]"
  have a1: "repr_in {a. a < length ?h} ?h (PRef 1) (JObj ?d)"
    by (simp add: lookup_obj_def)
  have a2: "depth (JObj ?d) \<le> 2" by simp
  have a3: "sanitize_dict ?d '''' = [(''apiKey'', JStr REDACTED_PLACEHOLDER), (''tags'', JArr [JStr ''a''])]"
    by (simp add: sanitize_eval)
  have a4: "length ?h = 2" by simp
  from sanitize_leaves_input_unchanged[THEN conjunct1, rule_format, OF conjI[OF a1 a2], of "''''"]
  have a: "\<exists>h'. sanitize_dict_h 2 ?h 1 '''' = Some (h', 2) \<and> take 2 h' = ?h
         \<and> repr_in {a. 2 \<le> a} h' (PRef 2)
             (JObj [(''apiKey'', JStr REDACTED_PLACEHOLDER), (''tags'', JArr [JStr ''a''])])"
    unfolding a3 a4 by blast
  let ?hl = "[PList [PStr ''a'']]"
  have b1: "repr_in {a. a < length ?hl} ?hl (PRef 0) (JArr [JStr ''a''])"
    by (simp add: lookup_obj_def)
  have b2: "depth (JArr [JStr ''a'']) \<le> 1" by simp
  have b3: "sanitize_list ''tags'' [JStr ''a''] = [JStr ''a'']"
    by (simp add: sanitize_eval)
  have b4: "length ?hl = 1" by simp
  from sanitize_leaves_input_unchanged[THEN conjunct2, THEN conjunct1, rule_format,
      OF conjI[OF b1 b2], of "''tags''"]
  have b: "\<exists>h'. sanitize_list_h 1 ?hl ''tags'' 0 = Some (h', 1) \<and> take 1 h' = ?hl
         \<and> repr_in {a. 1 \<le> a} h' (PRef 1) (JArr [JStr ''a''])"
    unfolding b3 b4 by blast
  let ?fs = "[''ks.json'' \<mapsto> ''text'']"
  let ?j = "JObj [(''apiKey'', JStr ''abc'')]"
  let ?loads = "\<lambda>t::string. Some ?j"
  let ?dumps = "\<lambda>j. case j of JObj [(k, JStr s)] \<Rightarrow> s | _ \<Rightarrow> []"
  have c1: "?fs ''ks.json'' = Some ''text''" by simp
  have c2: "?loads ''text'' = Some ?j" by simp
  have c3: "depth ?j \<le> 1" by simp
  have c4: "(0::nat) < 1" by simp
  have c5: "sanitize_document ?j = Some (JObj [(''apiKey'', JStr REDACTED_PLACEHOLDER)])"
    by (simp add: sanitize_document_def sanitize_eval)
  from sanitize_leaves_input_unchanged[THEN conjunct2, THEN conjunct2, THEN conjunct1, rule_format,
      where fs = ?fs and file_path = "''ks.json''" and content = "''text''" and loads = ?loads
        and j = ?j and limit = 1 and dumps = ?dumps and dump_json = "\<lambda>j. []"]
    c1 c2 c3 c4
  have c: "sanitize_file ?loads ?dumps (\<lambda>j. []) 1 ?fs ''ks.json'' True
       = (Returned True WouldModify, ?fs)"
    unfolding c5 by (simp add: REDACTED_PLACEHOLDER_def)
  show ?thesis using a1 a2 a b1 b2 b c1 c3 c by (intro conjI) simp_all
qed


end
